theory Spec2Isabelle
  imports Complex_Main
begin

section \<open>Numbers\<close>

text \<open>
  The scripts compute with Python floats and NumPy float64 scalars. \<open>simulate\<close> is
  modelled over an arithmetic that is a parameter: a record of the operations the code
  applies to its numbers, on a carrier \<open>'f\<close> about which nothing is assumed. A statement
  proved for every arithmetic holds for float64, whatever its rounding, overflow and
  \<open>nan\<close> do.

  \<open>flit\<close> is the float a literal denotes, \<open>fdiv\<close> is NumPy's division (that of the
  radial clamp, whose divisor is the NumPy scalar returned by \<open>np.hypot\<close>: a zero
  divisor raises nothing), \<open>fge\<close> is \<open>>=\<close>.
\<close>

record 'f arithmetic =
  flit :: "real \<Rightarrow> 'f"
  fneg :: "'f \<Rightarrow> 'f"
  fadd :: "'f \<Rightarrow> 'f \<Rightarrow> 'f"
  fmul :: "'f \<Rightarrow> 'f \<Rightarrow> 'f"
  fdiv :: "'f \<Rightarrow> 'f \<Rightarrow> 'f"
  fhypot :: "'f \<Rightarrow> 'f \<Rightarrow> 'f"
  fge :: "'f \<Rightarrow> 'f \<Rightarrow> bool"

text \<open>\<open>a > b\<close> and \<open>a == b\<close> in terms of \<open>>=\<close>; both are false when an operand is \<open>nan\<close>.\<close>

definition fgt :: "'f arithmetic \<Rightarrow> 'f \<Rightarrow> 'f \<Rightarrow> bool" where
  "fgt A a b \<longleftrightarrow> fge A a b \<and> \<not> fge A b a"

definition feq :: "'f arithmetic \<Rightarrow> 'f \<Rightarrow> 'f \<Rightarrow> bool" where
  "feq A a b \<longleftrightarrow> fge A a b \<and> fge A b a"

datatype py_error = ZeroDivisionError | IndexError | ValueError

text \<open>
  Two arithmetics on the same carrier: a finite number, the two infinities, \<open>nan\<close>.
  (The sign of a zero is not kept: \<open>-0.0\<close> and \<open>0.0\<close> compare equal, and the only
  division by zero that the code performs is by a \<open>hypot\<close>, which is never \<open>-0.0\<close>.)
  \<open>binary64\<close> is float64: every finite result is rounded to the nearest float, ties to
  even, with gradual underflow and overflow to an infinity. (\<open>np.hypot\<close> is taken as
  correctly rounded; in the runs evaluated below its exact value is a float.) The runs
  of \<open>simulate\<close> on given inputs are evaluated in this arithmetic.
  \<open>exact\<close> computes without rounding: it is not the arithmetic of the code, and serves
  to say what would hold if nothing were rounded.
\<close>

datatype fl = Finite real | PosInf | NegInf | NaN

definition hypot :: "real \<Rightarrow> real \<Rightarrow> real" where
  "hypot x y = sqrt (x * x + y * y)"

fun fl_sign :: "fl \<Rightarrow> real" where
  "fl_sign (Finite x) = sgn x"
| "fl_sign PosInf = 1"
| "fl_sign NegInf = - 1"
| "fl_sign NaN = 0"

definition signed_inf :: "real \<Rightarrow> fl" where
  "signed_inf s = (if s < 0 then NegInf else PosInf)"

fun exact_neg :: "fl \<Rightarrow> fl" where
  "exact_neg (Finite x) = Finite (- x)"
| "exact_neg PosInf = NegInf"
| "exact_neg NegInf = PosInf"
| "exact_neg NaN = NaN"

fun exact_add :: "fl \<Rightarrow> fl \<Rightarrow> fl" where
  "exact_add (Finite x) (Finite y) = Finite (x + y)"
| "exact_add NaN _ = NaN"
| "exact_add _ NaN = NaN"
| "exact_add PosInf NegInf = NaN"
| "exact_add NegInf PosInf = NaN"
| "exact_add PosInf _ = PosInf"
| "exact_add _ PosInf = PosInf"
| "exact_add NegInf _ = NegInf"
| "exact_add _ NegInf = NegInf"

fun exact_mul :: "fl \<Rightarrow> fl \<Rightarrow> fl" where
  "exact_mul (Finite x) (Finite y) = Finite (x * y)"
| "exact_mul NaN _ = NaN"
| "exact_mul _ NaN = NaN"
| "exact_mul a b =
     (if fl_sign a * fl_sign b = 0 then NaN else signed_inf (fl_sign a * fl_sign b))"

fun exact_div :: "fl \<Rightarrow> fl \<Rightarrow> fl" where
  "exact_div (Finite x) (Finite y) =
     (if y \<noteq> 0 then Finite (x / y) else if x = 0 then NaN else signed_inf x)"
| "exact_div NaN _ = NaN"
| "exact_div _ NaN = NaN"
| "exact_div (Finite x) _ = Finite 0"
| "exact_div a (Finite y) = signed_inf (fl_sign a * (if y < 0 then - 1 else 1))"
| "exact_div _ _ = NaN"

fun exact_hypot :: "fl \<Rightarrow> fl \<Rightarrow> fl" where
  "exact_hypot (Finite x) (Finite y) = Finite (hypot x y)"
| "exact_hypot PosInf _ = PosInf"
| "exact_hypot NegInf _ = PosInf"
| "exact_hypot _ PosInf = PosInf"
| "exact_hypot _ NegInf = PosInf"
| "exact_hypot _ _ = NaN"

fun exact_ge :: "fl \<Rightarrow> fl \<Rightarrow> bool" where
  "exact_ge (Finite x) (Finite y) = (x \<ge> y)"
| "exact_ge NaN _ = False"
| "exact_ge _ NaN = False"
| "exact_ge PosInf _ = True"
| "exact_ge _ NegInf = True"
| "exact_ge _ _ = False"

definition exact :: "fl arithmetic" where
  "exact = \<lparr>flit = Finite, fneg = exact_neg, fadd = exact_add, fmul = exact_mul,
            fdiv = exact_div, fhypot = exact_hypot, fge = exact_ge\<rparr>"

definition round_half_even :: "real \<Rightarrow> int" where
  "round_half_even y =
     (let f = \<lfloor>y\<rfloor>; r = y - of_int f
      in if r < 1 / 2 then f else if r > 1 / 2 then f + 1 else if even f then f else f + 1)"

definition round64 :: "real \<Rightarrow> fl" where
  "round64 r =
     (if r = 0 then Finite 0
      else
        (let e = max \<lfloor>log 2 \<bar>r\<bar>\<rfloor> (- 1022);
             u = 2 powi (e - 52);
             v = of_int (round_half_even (r / u)) * u
         in if \<bar>v\<bar> \<ge> 2 ^ 1024 then signed_inf r else Finite v))"

fun rounded :: "fl \<Rightarrow> fl" where
  "rounded (Finite x) = round64 x"
| "rounded a = a"

definition binary64 :: "fl arithmetic" where
  "binary64 = \<lparr>flit = round64, fneg = exact_neg,
               fadd = (\<lambda>a b. rounded (exact_add a b)),
               fmul = (\<lambda>a b. rounded (exact_mul a b)),
               fdiv = (\<lambda>a b. rounded (exact_div a b)),
               fhypot = (\<lambda>a b. rounded (exact_hypot a b)),
               fge = exact_ge\<rparr>"


section \<open>birthday\_station.py: simulate\<close>

text \<open>
  \<open>simulate\<close> returns a dictionary of arrays. The three arrays built by the loop are the
  fields of \<open>trajectory\<close>; the two rotating-frame arrays are computed from them afterwards
  by \<open>rotate_xy\<close> and are left out.
\<close>

record 'f trajectory =
  time :: "'f list"
  x_inertial :: "'f list"
  y_inertial :: "'f list"

definition record_state :: "'f \<Rightarrow> 'f \<Rightarrow> 'f \<Rightarrow> 'f trajectory \<Rightarrow> 'f trajectory" where
  "record_state x y t tr =
     \<lparr>time = time tr @ [t], x_inertial = x_inertial tr @ [x], y_inertial = y_inertial tr @ [y]\<rparr>"

text \<open>
  The body of \<open>for _ in range(max_steps)\<close>: the second argument counts the iterations
  that remain, \<open>(current_x, current_y, current_time)\<close> are the loop variables, and the
  \<open>break\<close> of the clamp branch is the branch without a recursive call.
\<close>

fun simulate_loop ::
  "'f arithmetic \<Rightarrow> nat \<Rightarrow> 'f \<Rightarrow> 'f \<times> 'f \<Rightarrow> 'f \<Rightarrow> 'f \<times> 'f \<times> 'f \<Rightarrow> 'f trajectory
     \<Rightarrow> 'f trajectory" where
  "simulate_loop A 0 inner_radius (velocity_x, velocity_y) time_step
       (current_x, current_y, current_time) tr = tr"
| "simulate_loop A (Suc n) inner_radius (velocity_x, velocity_y) time_step
       (current_x, current_y, current_time) tr =
     (let current_x = fadd A current_x (fmul A velocity_x time_step);
          current_y = fadd A current_y (fmul A velocity_y time_step);
          current_time = fadd A current_time time_step;
          radius = fhypot A current_x current_y
      in if fge A radius inner_radius then
           record_state (fdiv A (fmul A inner_radius current_x) radius)
                        (fdiv A (fmul A inner_radius current_y) radius) current_time tr
         else
           simulate_loop A n inner_radius (velocity_x, velocity_y) time_step
             (current_x, current_y, current_time)
             (record_state current_x current_y current_time tr))"

text \<open>
  \<open>time_step = None\<close> is the default argument: the step is then
  \<open>0.001 * 2.0 * np.pi / angular_speed\<close>, a division of Python floats, which raises for a
  zero divisor.
\<close>

definition resolve_time_step :: "'f arithmetic \<Rightarrow> 'f \<Rightarrow> 'f option \<Rightarrow> py_error + 'f" where
  "resolve_time_step A angular_speed time_step =
     (case time_step of
        Some dt \<Rightarrow> Inr dt
      | None \<Rightarrow>
          if feq A angular_speed (flit A 0) then Inl ZeroDivisionError
          else Inr (fdiv A (fmul A (fmul A (flit A 0.001) (flit A 2.0)) (flit A pi)) angular_speed))"

definition initial_trajectory :: "'f arithmetic \<Rightarrow> 'f \<Rightarrow> 'f \<Rightarrow> 'f trajectory" where
  "initial_trajectory A initial_x_position initial_y_position =
     \<lparr>time = [flit A 0], x_inertial = [initial_x_position],
      y_inertial = [initial_y_position]\<rparr>"

definition simulate ::
  "'f arithmetic \<Rightarrow> 'f \<Rightarrow> 'f \<Rightarrow> 'f \<Rightarrow> 'f \<times> 'f \<Rightarrow> 'f option \<Rightarrow> int
     \<Rightarrow> py_error + 'f trajectory" where
  "simulate A angular_speed inner_radius release_height initial_velocity time_step max_steps =
     (case resolve_time_step A angular_speed time_step of
        Inl e \<Rightarrow> Inl e
      | Inr dt \<Rightarrow>
          (let initial_x_position = flit A 0;
               initial_y_position = fadd A (fneg A inner_radius) release_height
           in Inr (simulate_loop A (nat max_steps) inner_radius initial_velocity dt
                     (initial_x_position, initial_y_position, flit A 0)
                     (initial_trajectory A initial_x_position initial_y_position))))"

text \<open>
  Names for what the loop records. \<open>flight A v dt p k\<close> is the point reached from \<open>p\<close>
  by \<open>k\<close> advances, each computed as the loop computes it, and \<open>clock A dt t k\<close> the time
  reached from \<open>t\<close> by \<open>k\<close> additions of the step; \<open>release_point\<close> is the initial
  position. \<open>free_run\<close> extends a trajectory by \<open>m\<close>
  unclamped entries, \<open>clamped_run\<close> by \<open>m\<close> unclamped entries followed by the clamped
  entry of advance \<open>m + 1\<close>.
\<close>

fun advance :: "'f arithmetic \<Rightarrow> 'f \<times> 'f \<Rightarrow> 'f \<Rightarrow> 'f \<times> 'f \<Rightarrow> 'f \<times> 'f" where
  "advance A (velocity_x, velocity_y) time_step (x, y) =
     (fadd A x (fmul A velocity_x time_step), fadd A y (fmul A velocity_y time_step))"

fun flight :: "'f arithmetic \<Rightarrow> 'f \<times> 'f \<Rightarrow> 'f \<Rightarrow> 'f \<times> 'f \<Rightarrow> nat \<Rightarrow> 'f \<times> 'f" where
  "flight A v dt p 0 = p"
| "flight A v dt p (Suc k) = flight A v dt (advance A v dt p) k"

fun clock :: "'f arithmetic \<Rightarrow> 'f \<Rightarrow> 'f \<Rightarrow> nat \<Rightarrow> 'f" where
  "clock A dt t 0 = t"
| "clock A dt t (Suc k) = clock A dt (fadd A t dt) k"

definition release_point :: "'f arithmetic \<Rightarrow> 'f \<Rightarrow> 'f \<Rightarrow> 'f \<times> 'f" where
  "release_point A inner_radius release_height =
     (flit A 0, fadd A (fneg A inner_radius) release_height)"

definition flight_radius :: "'f arithmetic \<Rightarrow> 'f \<times> 'f \<Rightarrow> 'f \<Rightarrow> 'f \<times> 'f \<Rightarrow> nat \<Rightarrow> 'f" where
  "flight_radius A v dt p k = fhypot A (fst (flight A v dt p k)) (snd (flight A v dt p k))"

definition steps :: "(nat \<Rightarrow> 'a) \<Rightarrow> nat \<Rightarrow> 'a list" where
  "steps f m = map f [1..<Suc m]"

definition free_run ::
  "'f arithmetic \<Rightarrow> 'f \<times> 'f \<Rightarrow> 'f \<Rightarrow> 'f \<times> 'f \<times> 'f \<Rightarrow> nat \<Rightarrow> 'f trajectory \<Rightarrow> 'f trajectory" where
  "free_run A v dt c m tr =
     (case c of (cx, cy, ct) \<Rightarrow>
       \<lparr>time = time tr @ steps (clock A dt ct) m,
        x_inertial = x_inertial tr @ steps (\<lambda>k. fst (flight A v dt (cx, cy) k)) m,
        y_inertial = y_inertial tr @ steps (\<lambda>k. snd (flight A v dt (cx, cy) k)) m\<rparr>)"

definition clamped_run ::
  "'f arithmetic \<Rightarrow> 'f \<Rightarrow> 'f \<times> 'f \<Rightarrow> 'f \<Rightarrow> 'f \<times> 'f \<times> 'f \<Rightarrow> nat \<Rightarrow> 'f trajectory
     \<Rightarrow> 'f trajectory" where
  "clamped_run A R v dt c m tr =
     (case c of (cx, cy, ct) \<Rightarrow>
       record_state
         (fdiv A (fmul A R (fst (flight A v dt (cx, cy) (Suc m)))) (flight_radius A v dt (cx, cy) (Suc m)))
         (fdiv A (fmul A R (snd (flight A v dt (cx, cy) (Suc m)))) (flight_radius A v dt (cx, cy) (Suc m)))
         (clock A dt ct (Suc m))
         (free_run A v dt c m tr))"


section \<open>two\_balls\_bounce.py: simulate\_motion\<close>

text \<open>
  The arrays have shape \<open>(number_of_balls, 3)\<close>: a list of rows, each row a triple.
  \<open>vec_scale\<close> is \<open>row * time_step\<close>, \<open>vec_add\<close> is the row addition of \<open>+=\<close>, and
  \<open>negate_x\<close> is \<open>row[0] *= -1.0\<close>. The entries are taken as real numbers: what is
  proved of \<open>simulate_motion\<close> is the order of its wall test and its advance, the
  negation of a velocity, whether the call returns, and what it does to storage.
\<close>

type_synonym vec = "real \<times> real \<times> real"
type_synonym array = "vec list"

fun x_of :: "vec \<Rightarrow> real" where
  "x_of (x, y, z) = x"

fun negate_x :: "vec \<Rightarrow> vec" where
  "negate_x (x, y, z) = (x * (- 1), y, z)"

fun vec_scale :: "vec \<Rightarrow> real \<Rightarrow> vec" where
  "vec_scale (x, y, z) s = (x * s, y * s, z * s)"

fun vec_add :: "vec \<Rightarrow> vec \<Rightarrow> vec" where
  "vec_add (x, y, z) (x', y', z') = (x + x', y + y', z + z')"


text \<open>
  The body of \<open>for index in range(len(positions))\<close> for one index. \<open>index\<close> is always
  a row of \<open>positions\<close>; a \<open>velocities\<close> array with fewer rows raises IndexError, in the
  reflection when the wall test holds and in the advance otherwise.
\<close>

definition update_body ::
  "real \<Rightarrow> real \<Rightarrow> nat \<Rightarrow> array \<times> array \<Rightarrow> py_error + array \<times> array" where
  "update_body wall_x_position time_step index pv =
     (case pv of (positions, velocities) \<Rightarrow>
        if length velocities \<le> index then Inl IndexError
        else
          (let velocities =
                 (if x_of (positions ! index) \<ge> wall_x_position
                  then velocities[index := negate_x (velocities ! index)]
                  else velocities);
               positions =
                 positions[index := vec_add (positions ! index)
                                      (vec_scale (velocities ! index) time_step)]
           in Inr (positions, velocities)))"

fun for_each_body ::
  "real \<Rightarrow> real \<Rightarrow> nat list \<Rightarrow> array \<times> array \<Rightarrow> py_error + array \<times> array" where
  "for_each_body wall_x_position time_step [] pv = Inr pv"
| "for_each_body wall_x_position time_step (index # rest) pv =
     (case update_body wall_x_position time_step index pv of
        Inl e \<Rightarrow> Inl e
      | Inr pv' \<Rightarrow> for_each_body wall_x_position time_step rest pv')"

definition advance_bodies ::
  "real \<Rightarrow> real \<Rightarrow> array \<times> array \<Rightarrow> py_error + array \<times> array" where
  "advance_bodies wall_x_position time_step pv =
     for_each_body wall_x_position time_step [0..<length (fst pv)] pv"

text \<open>
  \<open>while current_time <= stop_time\<close>. Nothing bounds the number of iterations (a
  \<open>time_step\<close> that is not positive never reaches \<open>stop_time\<close>), so the loop is a
  partial function: \<open>None\<close> is the call that does not return.
\<close>

partial_function (option) motion_loop ::
  "real \<Rightarrow> real \<Rightarrow> real \<Rightarrow> array list \<Rightarrow> array \<times> array \<Rightarrow> real \<Rightarrow> (py_error + array list) option" where
  "motion_loop wall_x_position time_step stop_time positions_over_time pv current_time =
     (if current_time \<le> stop_time then
        (case advance_bodies wall_x_position time_step pv of
           Inl e \<Rightarrow> Some (Inl e)
         | Inr pv' \<Rightarrow>
             motion_loop wall_x_position time_step stop_time
               (positions_over_time @ [fst pv]) pv' (current_time + time_step))
      else Some (Inr positions_over_time))"

definition simulate_motion ::
  "array \<Rightarrow> array \<Rightarrow> real \<Rightarrow> real \<Rightarrow> real \<Rightarrow> (py_error + array list) option" where
  "simulate_motion initial_positions initial_velocities wall_x_position time_step stop_time =
     motion_loop wall_x_position time_step stop_time [] (initial_positions, initial_velocities) 0"



text \<open>The while loop as an execution relation, one rule for each way out of an iteration.\<close>

inductive motion_exec ::
  "real \<Rightarrow> real \<Rightarrow> real \<Rightarrow> array list \<Rightarrow> array \<times> array \<Rightarrow> real \<Rightarrow> py_error + array list \<Rightarrow> bool"
  for wall_x_position :: real and time_step :: real and stop_time :: real where
  finished:
    "\<not> current_time \<le> stop_time \<Longrightarrow>
     motion_exec wall_x_position time_step stop_time positions_over_time pv current_time
       (Inr positions_over_time)"
| raised:
    "current_time \<le> stop_time \<Longrightarrow>
     advance_bodies wall_x_position time_step pv = Inl e \<Longrightarrow>
     motion_exec wall_x_position time_step stop_time positions_over_time pv current_time (Inl e)"
| iterate:
    "current_time \<le> stop_time \<Longrightarrow>
     advance_bodies wall_x_position time_step pv = Inr pv' \<Longrightarrow>
     motion_exec wall_x_position time_step stop_time (positions_over_time @ [fst pv]) pv'
       (current_time + time_step) result \<Longrightarrow>
     motion_exec wall_x_position time_step stop_time positions_over_time pv current_time result"


section \<open>two\_balls\_cross.py: simulate\_motion\<close>

text \<open>
  \<open>positions = positions + velocities * time_step\<close>. The row counts of the two operands
  are broadcast as NumPy does: equal, or one of them 1; anything else raises ValueError.
\<close>

definition array_scale :: "array \<Rightarrow> real \<Rightarrow> array" where
  "array_scale a c = map (\<lambda>row. vec_scale row c) a"

definition array_add :: "array \<Rightarrow> array \<Rightarrow> py_error + array" where
  "array_add a b =
     (if length a = length b then Inr (map (\<lambda>(x, y). vec_add x y) (zip a b))
      else if length b = 1 then Inr (map (\<lambda>x. vec_add x (hd b)) a)
      else if length a = 1 then Inr (map (\<lambda>y. vec_add (hd a) y) b)
      else Inl ValueError)"

partial_function (option) cross_loop ::
  "real \<Rightarrow> real \<Rightarrow> array list \<Rightarrow> array \<Rightarrow> array \<Rightarrow> real \<Rightarrow> (py_error + array list) option" where
  "cross_loop time_step stop_time positions_over_time positions velocities current_time =
     (if current_time \<le> stop_time then
        (case array_add positions (array_scale velocities time_step) of
           Inl e \<Rightarrow> Some (Inl e)
         | Inr moved \<Rightarrow>
             cross_loop time_step stop_time (positions_over_time @ [positions]) moved velocities
               (current_time + time_step))
      else Some (Inr positions_over_time))"

definition simulate_motion_cross ::
  "array \<Rightarrow> array \<Rightarrow> real \<Rightarrow> real \<Rightarrow> (py_error + array list) option" where
  "simulate_motion_cross initial_positions initial_velocities time_step stop_time =
     cross_loop time_step stop_time [] initial_positions initial_velocities 0"


section \<open>The arrays of simulate\_motion in storage\<close>

text \<open>
  Whether a call changes the caller's arrays, and whether what it returns shares storage
  with them, cannot be read off values alone. Here a NumPy array is a cell of a store,
  an array variable holds the address of its cell, \<open>.copy()\<close> and every array-valued
  expression allocate a new cell, and an indexed assignment overwrites a cell in place.
  The store is the list of the cells allocated so far; an address is an index into it.
\<close>

type_synonym addr = nat
type_synonym store = "array list"

definition alloc :: "array \<Rightarrow> store \<Rightarrow> addr \<times> store" where
  "alloc a s = (length s, s @ [a])"

definition array_copy :: "addr \<Rightarrow> store \<Rightarrow> addr \<times> store" where
  "array_copy p s = alloc (s ! p) s"

text \<open>
  two\_balls\_bounce.py. \<open>positions\<close> and \<open>velocities\<close> are the addresses of the two
  working arrays; the result carries the store, also when IndexError is raised.
\<close>

definition update_body_stored ::
  "real \<Rightarrow> real \<Rightarrow> addr \<Rightarrow> addr \<Rightarrow> nat \<Rightarrow> store \<Rightarrow> py_error \<times> store + store" where
  "update_body_stored wall_x_position time_step positions velocities index s =
     (if length (s ! velocities) \<le> index then Inl (IndexError, s)
      else
        (let s = (if x_of (s ! positions ! index) \<ge> wall_x_position
                  then s[velocities := (s ! velocities)[index := negate_x (s ! velocities ! index)]]
                  else s);
             s = s[positions := (s ! positions)[index :=
                    vec_add (s ! positions ! index) (vec_scale (s ! velocities ! index) time_step)]]
         in Inr s))"

fun for_each_body_stored ::
  "real \<Rightarrow> real \<Rightarrow> addr \<Rightarrow> addr \<Rightarrow> nat list \<Rightarrow> store \<Rightarrow> py_error \<times> store + store" where
  "for_each_body_stored wall_x_position time_step positions velocities [] s = Inr s"
| "for_each_body_stored wall_x_position time_step positions velocities (index # rest) s =
     (case update_body_stored wall_x_position time_step positions velocities index s of
        Inl es \<Rightarrow> Inl es
      | Inr s' \<Rightarrow> for_each_body_stored wall_x_position time_step positions velocities rest s')"

partial_function (option) motion_loop_stored ::
  "real \<Rightarrow> real \<Rightarrow> real \<Rightarrow> addr \<Rightarrow> addr \<Rightarrow> addr list \<Rightarrow> real \<Rightarrow> store
     \<Rightarrow> ((py_error + addr list) \<times> store) option" where
  "motion_loop_stored wall_x_position time_step stop_time positions velocities
       positions_over_time current_time s =
     (if current_time \<le> stop_time then
        (let (snapshot, s) = array_copy positions s
         in case for_each_body_stored wall_x_position time_step positions velocities
                   [0..<length (s ! positions)] s of
              Inl (e, s') \<Rightarrow> Some (Inl e, s')
            | Inr s' \<Rightarrow>
                motion_loop_stored wall_x_position time_step stop_time positions velocities
                  (positions_over_time @ [snapshot]) (current_time + time_step) s')
      else Some (Inr positions_over_time, s))"

definition simulate_motion_stored ::
  "addr \<Rightarrow> addr \<Rightarrow> real \<Rightarrow> real \<Rightarrow> real \<Rightarrow> store \<Rightarrow> ((py_error + addr list) \<times> store) option" where
  "simulate_motion_stored initial_positions initial_velocities wall_x_position time_step stop_time s =
     (let (positions, s) = array_copy initial_positions s;
          (velocities, s) = array_copy initial_velocities s
      in motion_loop_stored wall_x_position time_step stop_time positions velocities [] 0 s)"

text \<open>
  two\_balls\_cross.py. \<open>positions + velocities * time_step\<close> builds two new arrays, the
  product and the sum, and \<open>positions\<close> is rebound to the sum.
\<close>

partial_function (option) cross_loop_stored ::
  "real \<Rightarrow> real \<Rightarrow> addr \<Rightarrow> addr \<Rightarrow> addr list \<Rightarrow> real \<Rightarrow> store
     \<Rightarrow> ((py_error + addr list) \<times> store) option" where
  "cross_loop_stored time_step stop_time positions velocities positions_over_time current_time s =
     (if current_time \<le> stop_time then
        (let (snapshot, s) = array_copy positions s;
             (scaled, s) = alloc (array_scale (s ! velocities) time_step) s
         in case array_add (s ! positions) (s ! scaled) of
              Inl e \<Rightarrow> Some (Inl e, s)
            | Inr moved \<Rightarrow>
                (let (positions, s) = alloc moved s
                 in cross_loop_stored time_step stop_time positions velocities
                      (positions_over_time @ [snapshot]) (current_time + time_step) s))
      else Some (Inr positions_over_time, s))"

definition simulate_motion_cross_stored ::
  "addr \<Rightarrow> addr \<Rightarrow> real \<Rightarrow> real \<Rightarrow> store \<Rightarrow> ((py_error + addr list) \<times> store) option" where
  "simulate_motion_cross_stored initial_positions initial_velocities time_step stop_time s =
     (let (positions, s) = array_copy initial_positions s;
          (velocities, s) = array_copy initial_velocities s
      in cross_loop_stored time_step stop_time positions velocities [] 0 s)"

text \<open>
  What a call leaves of the store it was given: every cell that existed keeps its
  array, and the returned addresses are distinct cells allocated during the call.
\<close>

definition preserves :: "store \<Rightarrow> store \<Rightarrow> bool" where
  "preserves s s' \<longleftrightarrow> length s \<le> length s' \<and> take (length s) s' = s"

definition fresh_frames :: "store \<Rightarrow> store \<Rightarrow> addr list \<Rightarrow> bool" where
  "fresh_frames s s' frames \<longleftrightarrow>
     distinct frames \<and> list_all (\<lambda>c. length s \<le> c \<and> c < length s') frames"


section \<open>The loop of simulate\<close>

lemma simulate_loop_Suc:
  "simulate_loop A (Suc n) R v dt (cx, cy, ct) tr =
     (if fge A (fhypot A (fst (advance A v dt (cx, cy))) (snd (advance A v dt (cx, cy)))) R then
        record_state
          (fdiv A (fmul A R (fst (advance A v dt (cx, cy))))
             (fhypot A (fst (advance A v dt (cx, cy))) (snd (advance A v dt (cx, cy)))))
          (fdiv A (fmul A R (snd (advance A v dt (cx, cy))))
             (fhypot A (fst (advance A v dt (cx, cy))) (snd (advance A v dt (cx, cy)))))
          (fadd A ct dt) tr
      else simulate_loop A n R v dt
             (fst (advance A v dt (cx, cy)), snd (advance A v dt (cx, cy)), fadd A ct dt)
             (record_state (fst (advance A v dt (cx, cy))) (snd (advance A v dt (cx, cy)))
                (fadd A ct dt) tr))"
  by (cases v) (simp add: Let_def)

lemma steps_0: "steps f 0 = []"
  by (simp add: steps_def)

lemma length_steps: "length (steps f m) = m"
  by (simp add: steps_def)

lemma nth_steps: "i < m \<Longrightarrow> steps f m ! i = f (Suc i)"
  unfolding steps_def by (simp add: nth_map_upt del: upt_Suc)

lemma steps_shift: "f 1 # steps (\<lambda>k. f (Suc k)) m = steps f (Suc m)"
  by (rule nth_equalityI) (auto simp: nth_Cons' length_steps nth_steps)

lemma flight_radius_shift:
  "flight_radius A v dt (advance A v dt p) k = flight_radius A v dt p (Suc k)"
  by (simp add: flight_radius_def)

lemma flight_radius_1:
  "flight_radius A v dt p (Suc 0) = fhypot A (fst (advance A v dt p)) (snd (advance A v dt p))"
  by (simp add: flight_radius_def)



lemma free_run_0: "free_run A v dt c 0 tr = tr"
  by (cases c) (simp add: free_run_def steps_0)

lemma free_run_shift:
  "free_run A v dt (fst (advance A v dt (cx, cy)), snd (advance A v dt (cx, cy)), fadd A ct dt) m
      (record_state (fst (advance A v dt (cx, cy))) (snd (advance A v dt (cx, cy))) (fadd A ct dt) tr)
   = free_run A v dt (cx, cy, ct) (Suc m) tr"
proof -
  let ?p = "advance A v dt (cx, cy)"
  have "time tr @ [fadd A ct dt] @ steps (clock A dt (fadd A ct dt)) m
          = time tr @ steps (clock A dt ct) (Suc m)"
    using steps_shift [of "clock A dt ct" m] by simp
  moreover have "x_inertial tr @ [fst ?p] @ steps (\<lambda>k. fst (flight A v dt ?p k)) m
          = x_inertial tr @ steps (\<lambda>k. fst (flight A v dt (cx, cy) k)) (Suc m)"
    using steps_shift [of "\<lambda>k. fst (flight A v dt (cx, cy) k)" m] by simp
  moreover have "y_inertial tr @ [snd ?p] @ steps (\<lambda>k. snd (flight A v dt ?p k)) m
          = y_inertial tr @ steps (\<lambda>k. snd (flight A v dt (cx, cy) k)) (Suc m)"
    using steps_shift [of "\<lambda>k. snd (flight A v dt (cx, cy) k)" m] by simp
  ultimately show ?thesis
    by (simp add: free_run_def record_state_def)
qed

lemma clamped_run_shift:
  "clamped_run A R v dt (fst (advance A v dt (cx, cy)), snd (advance A v dt (cx, cy)), fadd A ct dt) m
      (record_state (fst (advance A v dt (cx, cy))) (snd (advance A v dt (cx, cy))) (fadd A ct dt) tr)
   = clamped_run A R v dt (cx, cy, ct) (Suc m) tr"
proof -
  have p: "(fst (advance A v dt (cx, cy)), snd (advance A v dt (cx, cy))) = advance A v dt (cx, cy)"
    by simp
  have fl: "flight A v dt (advance A v dt (cx, cy)) (Suc m) = flight A v dt (cx, cy) (Suc (Suc m))"
    by simp
  have ck: "clock A dt (fadd A ct dt) (Suc m) = clock A dt ct (Suc (Suc m))"
    by simp
  show ?thesis
    unfolding clamped_run_def prod.case free_run_shift p fl flight_radius_shift ck ..
qed

lemma clamped_run_0:
  "clamped_run A R v dt (cx, cy, ct) 0 tr =
     record_state
       (fdiv A (fmul A R (fst (advance A v dt (cx, cy))))
          (fhypot A (fst (advance A v dt (cx, cy))) (snd (advance A v dt (cx, cy)))))
       (fdiv A (fmul A R (snd (advance A v dt (cx, cy))))
          (fhypot A (fst (advance A v dt (cx, cy))) (snd (advance A v dt (cx, cy)))))
       (fadd A ct dt) tr"
  by (simp add: clamped_run_def free_run_0 flight_radius_def)

text \<open>
  What the loop returns: either all \<open>n\<close> advances fail the radius test and are
  recorded as they are, or the first advance that passes it is recorded clamped and
  ends the loop.
\<close>

lemma simulate_loop_shape:
  "\<exists>m\<le>n. (\<forall>k. 1 \<le> k \<and> k \<le> m \<longrightarrow> \<not> fge A (flight_radius A v dt (cx, cy) k) R) \<and>
     ((m = n \<and> simulate_loop A n R v dt (cx, cy, ct) tr = free_run A v dt (cx, cy, ct) m tr) \<or>
      (m < n \<and> fge A (flight_radius A v dt (cx, cy) (Suc m)) R \<and>
       simulate_loop A n R v dt (cx, cy, ct) tr = clamped_run A R v dt (cx, cy, ct) m tr))"
proof (induction n arbitrary: cx cy ct tr)
  case 0
  show ?case by (cases v) (simp add: free_run_0)
next
  case (Suc n)
  let ?p = "advance A v dt (cx, cy)"
  let ?cx = "fst ?p" and ?cy = "snd ?p" and ?ct = "fadd A ct dt"
  have p: "(?cx, ?cy) = ?p" by simp
  show ?case
  proof (cases "fge A (fhypot A ?cx ?cy) R")
    case True
    have "simulate_loop A (Suc n) R v dt (cx, cy, ct) tr = clamped_run A R v dt (cx, cy, ct) 0 tr"
      using True by (simp only: simulate_loop_Suc if_True clamped_run_0)
    then show ?thesis
      using True by (intro exI[of _ 0]) (simp add: flight_radius_1)
  next
    case False
    let ?tr = "record_state ?cx ?cy ?ct tr"
    have unfold: "simulate_loop A (Suc n) R v dt (cx, cy, ct) tr = simulate_loop A n R v dt (?cx, ?cy, ?ct) ?tr"
      using False by (simp only: simulate_loop_Suc if_False)
    from Suc.IH [of ?cx ?cy ?ct ?tr] obtain m where m: "m \<le> n"
      and free: "\<forall>k. 1 \<le> k \<and> k \<le> m \<longrightarrow> \<not> fge A (flight_radius A v dt (?cx, ?cy) k) R"
      and shape: "(m = n \<and> simulate_loop A n R v dt (?cx, ?cy, ?ct) ?tr = free_run A v dt (?cx, ?cy, ?ct) m ?tr) \<or>
      (m < n \<and> fge A (flight_radius A v dt (?cx, ?cy) (Suc m)) R \<and>
       simulate_loop A n R v dt (?cx, ?cy, ?ct) ?tr = clamped_run A R v dt (?cx, ?cy, ?ct) m ?tr)"
      by blast
    have free': "\<forall>k. 1 \<le> k \<and> k \<le> Suc m \<longrightarrow> \<not> fge A (flight_radius A v dt (cx, cy) k) R"
    proof (intro allI impI)
      fix k assume k: "1 \<le> k \<and> k \<le> Suc m"
      show "\<not> fge A (flight_radius A v dt (cx, cy) k) R"
      proof (cases "k = 1")
        case True
        then show ?thesis using False by (simp add: flight_radius_1)
      next
        case False
        with k obtain j where j: "k = Suc j" "1 \<le> j" "j \<le> m"
          by (cases k) auto
        with free have "\<not> fge A (flight_radius A v dt (?cx, ?cy) j) R" by blast
        then have "\<not> fge A (flight_radius A v dt (cx, cy) (Suc j)) R"
          unfolding p flight_radius_shift .
        then show ?thesis unfolding j(1) .
      qed
    qed
    from shape have "(Suc m = Suc n \<and> simulate_loop A (Suc n) R v dt (cx, cy, ct) tr = free_run A v dt (cx, cy, ct) (Suc m) tr) \<or>
      (Suc m < Suc n \<and> fge A (flight_radius A v dt (cx, cy) (Suc (Suc m))) R \<and>
       simulate_loop A (Suc n) R v dt (cx, cy, ct) tr = clamped_run A R v dt (cx, cy, ct) (Suc m) tr)"
      unfolding unfold free_run_shift clamped_run_shift p flight_radius_shift Suc_less_eq nat.inject .
    with m free' show ?thesis
      by (intro exI[of _ "Suc m"]) (simp only: Suc_le_mono simp_thms)
  qed
qed


lemma simulate_unfold:
  "resolve_time_step A angular_speed time_step = Inr dt \<Longrightarrow>
   simulate A angular_speed R h v time_step max_steps =
     Inr (simulate_loop A (nat max_steps) R v dt
            (fst (release_point A R h), snd (release_point A R h), flit A 0)
            (initial_trajectory A (fst (release_point A R h)) (snd (release_point A R h))))"
  by (simp add: simulate_def release_point_def Let_def)


lemma nth_Cons_steps: "i \<le> m \<Longrightarrow> (f 0 # steps f m) ! i = f i"
  by (cases i) (simp_all add: nth_steps)

lemma free_run_initial:
  "free_run A v dt (fst p, snd p, t) m (initial_trajectory A (fst p) (snd p)) =
     \<lparr>time = flit A 0 # steps (clock A dt t) m,
      x_inertial = (\<lambda>k. fst (flight A v dt p k)) 0 # steps (\<lambda>k. fst (flight A v dt p k)) m,
      y_inertial = (\<lambda>k. snd (flight A v dt p k)) 0 # steps (\<lambda>k. snd (flight A v dt p k)) m\<rparr>"
  by (simp add: free_run_def initial_trajectory_def)

lemma free_run_initial_length:
  "length (time (free_run A v dt (fst p, snd p, t) m (initial_trajectory A (fst p) (snd p)))) = Suc m"
  "length (x_inertial (free_run A v dt (fst p, snd p, t) m (initial_trajectory A (fst p) (snd p)))) = Suc m"
  "length (y_inertial (free_run A v dt (fst p, snd p, t) m (initial_trajectory A (fst p) (snd p)))) = Suc m"
  by (simp_all add: free_run_initial length_steps)

lemma free_run_initial_nth:
  assumes "i \<le> m"
  shows "time (free_run A v dt (fst p, snd p, flit A 0) m (initial_trajectory A (fst p) (snd p))) ! i
           = clock A dt (flit A 0) i"
    and "x_inertial (free_run A v dt (fst p, snd p, t) m (initial_trajectory A (fst p) (snd p))) ! i
           = fst (flight A v dt p i)"
    and "y_inertial (free_run A v dt (fst p, snd p, t) m (initial_trajectory A (fst p) (snd p))) ! i
           = snd (flight A v dt p i)"
proof -
  have "(clock A dt (flit A 0) 0 # steps (clock A dt (flit A 0)) m) ! i = clock A dt (flit A 0) i"
    by (rule nth_Cons_steps [OF assms])
  then show "time (free_run A v dt (fst p, snd p, flit A 0) m (initial_trajectory A (fst p) (snd p))) ! i
           = clock A dt (flit A 0) i"
    by (simp add: free_run_initial)
  show "x_inertial (free_run A v dt (fst p, snd p, t) m (initial_trajectory A (fst p) (snd p))) ! i
           = fst (flight A v dt p i)"
    unfolding free_run_initial trajectory.simps by (rule nth_Cons_steps [OF assms])
  show "y_inertial (free_run A v dt (fst p, snd p, t) m (initial_trajectory A (fst p) (snd p))) ! i
           = snd (flight A v dt p i)"
    unfolding free_run_initial trajectory.simps by (rule nth_Cons_steps [OF assms])
qed

lemma clamped_run_initial_length:
  "length (time (clamped_run A R v dt (fst p, snd p, t) m (initial_trajectory A (fst p) (snd p)))) = Suc (Suc m)"
  "length (x_inertial (clamped_run A R v dt (fst p, snd p, t) m (initial_trajectory A (fst p) (snd p)))) = Suc (Suc m)"
  "length (y_inertial (clamped_run A R v dt (fst p, snd p, t) m (initial_trajectory A (fst p) (snd p)))) = Suc (Suc m)"
  by (simp_all add: clamped_run_def record_state_def free_run_initial_length)

lemma clamped_run_initial_nth:
  assumes "i \<le> m"
  shows "time (clamped_run A R v dt (fst p, snd p, flit A 0) m (initial_trajectory A (fst p) (snd p))) ! i
           = clock A dt (flit A 0) i"
    and "x_inertial (clamped_run A R v dt (fst p, snd p, t) m (initial_trajectory A (fst p) (snd p))) ! i
           = fst (flight A v dt p i)"
    and "y_inertial (clamped_run A R v dt (fst p, snd p, t) m (initial_trajectory A (fst p) (snd p))) ! i
           = snd (flight A v dt p i)"
  using assms
  by (simp_all add: clamped_run_def record_state_def nth_append free_run_initial_length
        free_run_initial_nth del: flight.simps clock.simps)

lemma clamped_run_initial_last:
  "time (clamped_run A R v dt (fst p, snd p, t) m (initial_trajectory A (fst p) (snd p))) ! Suc m
     = clock A dt t (Suc m)"
  "x_inertial (clamped_run A R v dt (fst p, snd p, t) m (initial_trajectory A (fst p) (snd p))) ! Suc m =
     fdiv A (fmul A R (fst (flight A v dt p (Suc m)))) (flight_radius A v dt p (Suc m))"
  "y_inertial (clamped_run A R v dt (fst p, snd p, t) m (initial_trajectory A (fst p) (snd p))) ! Suc m =
     fdiv A (fmul A R (snd (flight A v dt p (Suc m)))) (flight_radius A v dt p (Suc m))"
  by (simp_all add: clamped_run_def record_state_def nth_append free_run_initial_length
        del: flight.simps clock.simps)

text \<open>The two shapes, as facts about a returned trajectory.\<close>

lemma simulate_cases:
  assumes "resolve_time_step A angular_speed time_step = Inr dt"
    and "simulate A angular_speed R h v time_step max_steps = Inr tr"
  obtains (free)
      "tr = free_run A v dt (fst (release_point A R h), snd (release_point A R h), flit A 0)
              (nat max_steps)
              (initial_trajectory A (fst (release_point A R h)) (snd (release_point A R h)))"
      "\<forall>k. 1 \<le> k \<and> k \<le> nat max_steps \<longrightarrow>
         \<not> fge A (flight_radius A v dt (release_point A R h) k) R"
  | (clamped) m where "m < nat max_steps"
      "tr = clamped_run A R v dt (fst (release_point A R h), snd (release_point A R h), flit A 0) m
              (initial_trajectory A (fst (release_point A R h)) (snd (release_point A R h)))"
      "\<forall>k. 1 \<le> k \<and> k \<le> m \<longrightarrow> \<not> fge A (flight_radius A v dt (release_point A R h) k) R"
      "fge A (flight_radius A v dt (release_point A R h) (Suc m)) R"
proof -
  have p: "(fst (release_point A R h), snd (release_point A R h)) = release_point A R h"
    by simp
  from simulate_loop_shape [of "nat max_steps" A v dt "fst (release_point A R h)"
      "snd (release_point A R h)" R "flit A 0"
      "initial_trajectory A (fst (release_point A R h)) (snd (release_point A R h))"]
    assms(2) [unfolded simulate_unfold [OF assms(1)] sum.inject]
  show thesis
    unfolding p using free clamped by metis
qed


section \<open>Consecutive entries of a trajectory\<close>

text \<open>
  Two consecutive entries of a trajectory of \<open>simulate\<close>: the later time is the earlier
  one plus the step; the later position is the earlier one advanced, and the radius test
  is made on the advanced position.
\<close>

lemma simulate_time_nth:
  assumes "resolve_time_step A angular_speed time_step = Inr dt"
    and "simulate A angular_speed R h v time_step max_steps = Inr tr"
    and "i < length (time tr)"
  shows "time tr ! i = clock A dt (flit A 0) i"
  using assms(1,2)
proof (cases rule: simulate_cases)
  case free
  with assms(3) show ?thesis
    by (simp add: free_run_initial_length free_run_initial_nth del: clock.simps)
next
  case (clamped m)
  with assms(3) have "i \<le> m \<or> i = Suc m"
    by (auto simp: clamped_run_initial_length)
  then show ?thesis
    using clamped(2)
    by (auto simp: clamped_run_initial_nth clamped_run_initial_last simp del: clock.simps)
qed


section \<open>A ball that does not move\<close>

lemma flight_rest:
  "advance A v dt p = p \<Longrightarrow> flight A v dt p k = p"
  by (induction k) simp_all

text \<open>
  If an advance leaves the release point where it is, and its radius fails the test, the
  loop runs all its iterations and records the release point every time.
\<close>

lemma simulate_rest:
  assumes p: "release_point A R h = (x0, y0)"
    and still: "advance A v dt (x0, y0) = (x0, y0)"
    and inside: "\<not> fge A (fhypot A x0 y0) R"
  shows "\<exists>tr. simulate A angular_speed R h v (Some dt) max_steps = Inr tr \<and>
           x_inertial tr = replicate (Suc (nat max_steps)) x0 \<and>
           y_inertial tr = replicate (Suc (nat max_steps)) y0 \<and>
           length (time tr) = Suc (nat max_steps)"
proof -
  let ?p = "release_point A R h"
  have dt: "resolve_time_step A angular_speed (Some dt) = Inr dt"
    by (simp add: resolve_time_step_def)
  obtain tr where tr: "simulate A angular_speed R h v (Some dt) max_steps = Inr tr"
    by (simp add: simulate_unfold [OF dt])
  have fl: "flight A v dt ?p k = (x0, y0)" for k
    unfolding p using still by (rule flight_rest)
  have r: "\<not> fge A (flight_radius A v dt ?p k) R" for k
    using inside by (simp add: flight_radius_def fl del: flight.simps)
  from dt tr have eq: "tr = free_run A v dt (fst ?p, snd ?p, flit A 0)
                         (nat max_steps) (initial_trajectory A (fst ?p) (snd ?p))"
  proof (cases rule: simulate_cases)
    case free
    then show ?thesis by simp
  next
    case (clamped m)
    from clamped(4) r show ?thesis by simp
  qed
  have "x_inertial tr = replicate (Suc (nat max_steps)) x0"
    unfolding eq
    by (rule nth_equalityI)
       (simp_all add: free_run_initial_length free_run_initial_nth fl del: replicate_Suc flight.simps)
  moreover have "y_inertial tr = replicate (Suc (nat max_steps)) y0"
    unfolding eq
    by (rule nth_equalityI)
       (simp_all add: free_run_initial_length free_run_initial_nth fl del: replicate_Suc flight.simps)
  moreover have "length (time tr) = Suc (nat max_steps)"
    unfolding eq by (simp only: free_run_initial_length)
  ultimately show ?thesis using tr by blast
qed

section \<open>The arithmetic without rounding\<close>

lemma exact_simps:
  "flit exact = Finite" "fneg exact = exact_neg" "fadd exact = exact_add"
  "fmul exact = exact_mul" "fdiv exact = exact_div" "fhypot exact = exact_hypot"
  "fge exact = exact_ge"
  by (simp_all add: exact_def)

lemma hypot_0_left: "hypot 0 y = \<bar>y\<bar>"
  by (simp add: hypot_def)


section \<open>Rounding to float64\<close>

text \<open>
  Rounding in a binade: a number \<open>r\<close> with \<open>2 ^ k \<le> \<bar>r\<bar> < 2 ^ (k + 1)\<close>, within the
  exponent range of the normal numbers, rounds to the multiple of \<open>2 ^ (k - 52)\<close> nearest
  to it.
\<close>

lemma round64_binade:
  assumes lo: "2 powi k \<le> \<bar>r\<bar>" and hi: "\<bar>r\<bar> < 2 powi (k + 1)"
    and k: "- 1022 \<le> k"
    and m: "round_half_even (r / 2 powi (k - 52)) = m"
    and v: "\<bar>of_int m * 2 powi (k - 52)\<bar> < (2 :: real) ^ 1024"
  shows "round64 r = Finite (of_int m * 2 powi (k - 52))"
proof -
  have pos: "0 < (2 :: real) powi k"
    by simp
  from pos lo have "0 < \<bar>r\<bar>" by (rule less_le_trans)
  then have r0: "r \<noteq> 0" "0 < \<bar>r\<bar>" by simp_all
  have p: "(2 :: real) powr real_of_int j = 2 powi j" for j
    by (rule powr_real_of_int') simp_all
  have "(2 :: real) powr real_of_int k \<le> \<bar>r\<bar> \<and> \<bar>r\<bar> < 2 powr real_of_int (k + 1)"
    unfolding p using lo hi ..
  then have "\<lfloor>log 2 \<bar>r\<bar>\<rfloor> = k"
    by (subst floor_log_eq_powr_iff [OF r0(2)]) simp_all
  then have e: "max \<lfloor>log 2 \<bar>r\<bar>\<rfloor> (- 1022) = k"
    using k by simp
  show ?thesis
    using v by (simp add: round64_def r0(1) e m Let_def del: power_int_diff)
qed

lemma round_half_even_of_int: "round_half_even (of_int n) = n"
  by (simp add: round_half_even_def)

text \<open>The integers below \<open>2 ^ 53\<close> are floats.\<close>

lemma round64_of_int:
  assumes "\<bar>n\<bar> < 2 ^ 53"
  shows "round64 (of_int n) = Finite (of_int n)"
proof (cases "n = 0")
  case True
  then show ?thesis by (simp add: round64_def)
next
  case False
  define k where "k = \<lfloor>log 2 \<bar>of_int n :: real\<bar>\<rfloor>"
  have p: "(2 :: real) powr real_of_int j = 2 powi j" for j
    by (rule powr_real_of_int') simp_all
  from False have n1: "1 \<le> \<bar>of_int n :: real\<bar>"
    by (metis abs_ge_zero abs_of_nonneg of_int_1_le_iff of_int_abs zero_less_abs_iff zless_imp_add1_zle
          add_0)
  then have n0: "0 < \<bar>of_int n :: real\<bar>" by simp
  have "(2 :: real) powr real_of_int k \<le> \<bar>of_int n\<bar> \<and> \<bar>of_int n\<bar> < 2 powr real_of_int (k + 1)"
    using k_def floor_log_eq_powr_iff [OF n0, of 2 k] by simp
  then have lo: "2 powi k \<le> \<bar>of_int n :: real\<bar>" and hi: "\<bar>of_int n :: real\<bar> < 2 powi (k + 1)"
    unfolding p by simp_all
  have "0 \<le> log 2 \<bar>of_int n :: real\<bar>"
    using n1 n0 by (simp add: zero_le_log_cancel_iff)
  then have k0: "0 \<le> k"
    unfolding k_def by simp
  have "\<bar>of_int n :: real\<bar> < 2 ^ 53"
    using assms by (metis of_int_abs of_int_less_iff of_int_numeral of_int_power)
  with lo have "(2 :: real) powi k < 2 powi 53"
    by simp
  then have "k < 53"
    by (rule power_int_le_imp_less_exp [rotated]) simp_all
  then have k52: "k \<le> 52" by simp
  define j where "j = nat (52 - k)"
  have u: "(2 :: real) powi (k - 52) = 1 / 2 ^ j"
  proof -
    have "k - 52 = - int j" using k52 by (simp add: j_def)
    then have "(2 :: real) powi (k - 52) = 2 powi (- int j)" by simp
    also have "\<dots> = 1 / 2 ^ j" by (simp add: power_int_minus_divide)
    finally show ?thesis .
  qed
  have q: "of_int n / 2 powi (k - 52) = (of_int (n * 2 ^ j) :: real)"
    by (simp add: u)
  have m: "round_half_even (of_int n / 2 powi (k - 52)) = n * 2 ^ j"
    unfolding q by (rule round_half_even_of_int)
  have scaled: "of_int (n * 2 ^ j) * 2 powi (k - 52) = (of_int n :: real)"
    by (simp add: u)
  have "\<bar>of_int n :: real\<bar> < 2 ^ 1024"
  proof -
    have "(2 :: real) ^ 53 \<le> 2 ^ 1024" by (rule power_increasing) simp_all
    with \<open>\<bar>of_int n :: real\<bar> < 2 ^ 53\<close> show ?thesis by (rule less_le_trans)
  qed
  then have v: "\<bar>of_int (n * 2 ^ j) * 2 powi (k - 52)\<bar> < (2 :: real) ^ 1024"
    unfolding scaled .
  have "round64 (of_int n) = Finite (of_int (n * 2 ^ j) * 2 powi (k - 52))"
    using lo hi _ m v by (rule round64_binade) (use k0 in simp)
  then show ?thesis unfolding scaled .
qed

lemma round64_numeral:
  "numeral w < (2 :: int) ^ 53 \<Longrightarrow> round64 (numeral w) = Finite (numeral w)"
  "numeral w < (2 :: int) ^ 53 \<Longrightarrow> round64 (- numeral w) = Finite (- numeral w)"
  using round64_of_int [of "numeral w"] round64_of_int [of "- numeral w"] by simp_all

lemma round64_0: "round64 0 = Finite 0"
  by (simp add: round64_def)

lemma round64_1: "round64 1 = Finite 1" "round64 (- 1) = Finite (- 1)"
  using round64_of_int [of 1] round64_of_int [of "- 1"] by simp_all

lemma binary64_simps:
  "flit binary64 = round64" "fneg binary64 = exact_neg"
  "fadd binary64 a b = rounded (exact_add a b)"
  "fmul binary64 a b = rounded (exact_mul a b)"
  "fdiv binary64 a b = rounded (exact_div a b)"
  "fhypot binary64 a b = rounded (exact_hypot a b)"
  "fge binary64 = exact_ge"
  by (simp_all add: binary64_def)

lemmas binary64_eval =
  binary64_simps round64_numeral round64_0 round64_1 hypot_0_left


section \<open>Runs of simulate in float64\<close>

lemmas simulate_eval =
  simulate_def resolve_time_step_def initial_trajectory_def Let_def simulate_loop.simps
  record_state_def binary64_eval


text \<open>
  The float \<open>0.01\<close> is \<open>5764607523034235 / 2 ** 59\<close>. Six additions of it, each rounded,
  give \<open>0.060000000000000005\<close>; the product \<open>6 * 0.01\<close> is \<open>0.06\<close>.
\<close>

lemma binary64_add_step_1:
  "fadd binary64 (Finite 0) (Finite (5764607523034235 / 2 ^ 59)) = Finite (5764607523034235 / 2 ^ 59)"
proof -
  have "round64 (0 + 5764607523034235 / 2 ^ 59) = Finite (of_int 5764607523034235 * 2 powi (-7 - 52))"
    by (rule round64_binade) (simp_all add: round_half_even_def)
  also have "of_int 5764607523034235 * 2 powi (-7 - 52) = (5764607523034235 / 2 ^ 59 :: real)"
    by simp
  finally show ?thesis
    by (simp only: binary64_simps exact_add.simps rounded.simps)
qed

lemma binary64_add_step_2:
  "fadd binary64 (Finite (5764607523034235 / 2 ^ 59)) (Finite (5764607523034235 / 2 ^ 59)) = Finite (11529215046068470 / 2 ^ 59)"
proof -
  have "round64 (5764607523034235 / 2 ^ 59 + 5764607523034235 / 2 ^ 59) = Finite (of_int 5764607523034235 * 2 powi (-6 - 52))"
    by (rule round64_binade) (simp_all add: round_half_even_def)
  also have "of_int 5764607523034235 * 2 powi (-6 - 52) = (11529215046068470 / 2 ^ 59 :: real)"
    by simp
  finally show ?thesis
    by (simp only: binary64_simps exact_add.simps rounded.simps)
qed

lemma binary64_add_step_3:
  "fadd binary64 (Finite (11529215046068470 / 2 ^ 59)) (Finite (5764607523034235 / 2 ^ 59)) = Finite (17293822569102704 / 2 ^ 59)"
proof -
  have "round64 (11529215046068470 / 2 ^ 59 + 5764607523034235 / 2 ^ 59) = Finite (of_int 8646911284551352 * 2 powi (-6 - 52))"
    by (rule round64_binade) (simp_all add: round_half_even_def)
  also have "of_int 8646911284551352 * 2 powi (-6 - 52) = (17293822569102704 / 2 ^ 59 :: real)"
    by simp
  finally show ?thesis
    by (simp only: binary64_simps exact_add.simps rounded.simps)
qed






lemma binary64_rest:
  "release_point binary64 (Finite 10) (Finite 2) = (Finite 0, Finite (- 8))"
  "advance binary64 (Finite 0, Finite 0) (Finite dt) (Finite 0, Finite (- 8)) = (Finite 0, Finite (- 8))"
  "\<not> fge binary64 (fhypot binary64 (Finite 0) (Finite (- 8))) (Finite 10)"
  by (simp_all add: release_point_def binary64_eval)



section \<open>The recorded times\<close>

lemma exact_clock:
  "clock exact (Finite dt) (Finite t) k = Finite (t + real k * dt)"
  by (induction k arbitrary: t) (simp_all add: exact_simps algebra_simps)

text \<open>
  Without rounding, and only then, the running sum is the product: in the exact
  arithmetic entry \<open>i\<close> of the times is \<open>i * time_step\<close>.
\<close>

lemma simulate_exact_times:
  assumes "simulate exact angular_speed R h v (Some (Finite dt)) max_steps = Inr tr"
    and "i < length (time tr)"
  shows "time tr ! i = Finite (real i * dt)"
proof -
  have "resolve_time_step exact angular_speed (Some (Finite dt)) = Inr (Finite dt)"
    by (simp add: resolve_time_step_def)
  from simulate_time_nth [OF this assms] show ?thesis
    by (simp add: exact_simps exact_clock del: clock.simps)
qed




section \<open>The radial clamp\<close>

lemma hypot_scale: "0 \<le> c \<Longrightarrow> hypot (c * x) (c * y) = c * hypot x y"
proof -
  assume c: "0 \<le> c"
  have "hypot (c * x) (c * y) = sqrt (c\<^sup>2 * (x * x + y * y))"
    by (simp add: hypot_def power2_eq_square algebra_simps)
  also have "\<dots> = c * hypot x y"
    using c by (simp add: real_sqrt_mult hypot_def)
  finally show ?thesis .
qed

text \<open>
  Without rounding, a clamped point of a positive radius lies on the circle of that
  radius.
\<close>

lemma exact_clamp_on_circle:
  assumes "0 < R" and "fge exact (fhypot exact (Finite x) (Finite y)) (Finite R)"
  shows "fhypot exact
           (fdiv exact (fmul exact (Finite R) (Finite x)) (fhypot exact (Finite x) (Finite y)))
           (fdiv exact (fmul exact (Finite R) (Finite y)) (fhypot exact (Finite x) (Finite y)))
         = Finite R"
proof -
  from assms have r: "0 < hypot x y"
    by (simp add: exact_simps)
  have "hypot (R * x / hypot x y) (R * y / hypot x y) = hypot (R / hypot x y * x) (R / hypot x y * y)"
    by (simp add: field_simps)
  also have "\<dots> = R / hypot x y * hypot x y"
    using assms(1) r by (intro hypot_scale) simp
  also have "\<dots> = R"
    using r by simp
  finally show ?thesis
    using r by (simp add: exact_simps)
qed










section \<open>The divisor of the clamp\<close>




text \<open>
  Without the precondition the zero divisor is reached and nothing is raised: with
  \<open>inner_radius = 0.0\<close> and the ball at rest at the centre the clamp divides by a radius
  that is not greater than zero and records \<open>nan\<close>.
\<close>

lemma simulate_degenerate_clamp:
  "simulate binary64 (Finite 1) (Finite 0) (Finite 0) (Finite 0, Finite 0) (Some (Finite 2)) 1 =
     Inr \<lparr>time = [Finite 0, Finite 2], x_inertial = [Finite 0, NaN],
          y_inertial = [Finite 0, NaN]\<rparr> \<and>
   \<not> fgt binary64 (fhypot binary64 (Finite 0) (Finite 0)) (flit binary64 0)"
  by (simp add: simulate_eval eval_nat_numeral fgt_def)


section \<open>Inside the station\<close>





section \<open>The ball at rest\<close>

text \<open>
  Claim C6, as the code has it. The ball released at \<open>(0, -8)\<close> with zero velocity in a
  station of radius 10 never reaches the boundary, with \<open>time_step = 0.01\<close> as with any
  other finite step: the trajectory has \<open>max_steps + 1\<close> entries (the initial state and
  one for each step), and every recorded position is \<open>(0, -8)\<close>. This is so in float64,
  and without rounding.
\<close>

theorem simulate_at_rest:
  "(\<exists>tr. simulate binary64 angular_speed (Finite 10) (Finite 2) (Finite 0, Finite 0)
            (Some (Finite time_step)) max_steps = Inr tr \<and>
      x_inertial tr = replicate (Suc (nat max_steps)) (Finite 0) \<and>
      y_inertial tr = replicate (Suc (nat max_steps)) (Finite (- 8)) \<and>
      length (time tr) = Suc (nat max_steps)) \<and>
   (\<exists>tr. simulate exact angular_speed (Finite 10) (Finite 2) (Finite 0, Finite 0)
            (Some (Finite time_step)) max_steps = Inr tr \<and>
      x_inertial tr = replicate (Suc (nat max_steps)) (Finite 0) \<and>
      y_inertial tr = replicate (Suc (nat max_steps)) (Finite (- 8)) \<and>
      length (time tr) = Suc (nat max_steps))"
proof
  show "\<exists>tr. simulate binary64 angular_speed (Finite 10) (Finite 2) (Finite 0, Finite 0)
            (Some (Finite time_step)) max_steps = Inr tr \<and>
      x_inertial tr = replicate (Suc (nat max_steps)) (Finite 0) \<and>
      y_inertial tr = replicate (Suc (nat max_steps)) (Finite (- 8)) \<and>
      length (time tr) = Suc (nat max_steps)"
    by (rule simulate_rest [OF binary64_rest])
  show "\<exists>tr. simulate exact angular_speed (Finite 10) (Finite 2) (Finite 0, Finite 0)
            (Some (Finite time_step)) max_steps = Inr tr \<and>
      x_inertial tr = replicate (Suc (nat max_steps)) (Finite 0) \<and>
      y_inertial tr = replicate (Suc (nat max_steps)) (Finite (- 8)) \<and>
      length (time tr) = Suc (nat max_steps)"
    by (rule simulate_rest) (simp_all add: release_point_def exact_simps hypot_0_left)
qed

text \<open>
  With \<open>max_steps = 3\<close> and the float \<open>0.01\<close>, which is \<open>5764607523034235 / 2 ** 59\<close>, the
  trajectory has four entries, not three.
\<close>

theorem simulate_at_rest_length_counterexample:
  "simulate binary64 (Finite 1) (Finite 10) (Finite 2) (Finite 0, Finite 0)
       (Some (Finite (5764607523034235 / 2 ^ 59))) 3 =
    Inr \<lparr>time = [Finite 0, Finite (5764607523034235 / 2 ^ 59),
                 Finite (11529215046068470 / 2 ^ 59), Finite (17293822569102704 / 2 ^ 59)],
         x_inertial = [Finite 0, Finite 0, Finite 0, Finite 0],
         y_inertial = [Finite (- 8), Finite (- 8), Finite (- 8), Finite (- 8)]\<rparr>
   \<and> length [Finite 0, Finite (5764607523034235 / 2 ^ 59),
              Finite (11529215046068470 / 2 ^ 59), Finite (17293822569102704 / 2 ^ 59)] \<noteq> nat 3"
proof
  have three: "nat 3 = Suc (Suc (Suc 0))" by simp
  have zero: "flit binary64 0 = Finite 0" by (simp add: binary64_eval)
  have y0: "fadd binary64 (fneg binary64 (Finite 10)) (Finite 2) = Finite (- 8)"
    by (simp add: binary64_eval)
  have still: "fmul binary64 (Finite 0) (Finite (5764607523034235 / 2 ^ 59)) = Finite 0"
    "fadd binary64 (Finite 0) (Finite 0) = Finite 0"
    "fadd binary64 (Finite (- 8)) (Finite 0) = Finite (- 8)"
    "fge binary64 (fhypot binary64 (Finite 0) (Finite (- 8))) (Finite 10) = False"
    by (simp_all add: binary64_eval)
  show "simulate binary64 (Finite 1) (Finite 10) (Finite 2) (Finite 0, Finite 0)
       (Some (Finite (5764607523034235 / 2 ^ 59))) 3 =
    Inr \<lparr>time = [Finite 0, Finite (5764607523034235 / 2 ^ 59),
                 Finite (11529215046068470 / 2 ^ 59), Finite (17293822569102704 / 2 ^ 59)],
         x_inertial = [Finite 0, Finite 0, Finite 0, Finite 0],
         y_inertial = [Finite (- 8), Finite (- 8), Finite (- 8), Finite (- 8)]\<rparr>"
    unfolding simulate_def resolve_time_step_def option.case sum.case Let_def three zero y0
      simulate_loop.simps still if_False binary64_add_step_1 binary64_add_step_2
      binary64_add_step_3 initial_trajectory_def record_state_def
    by simp
  show "length [Finite 0, Finite (5764607523034235 / 2 ^ 59),
              Finite (11529215046068470 / 2 ^ 59), Finite (17293822569102704 / 2 ^ 59)] \<noteq> nat 3"
    by simp
qed


section \<open>The loops of simulate\_motion\<close>

text \<open>
  One pass of the for loop: it raises IndexError exactly when \<open>velocities\<close> has fewer
  rows than \<open>positions\<close>; otherwise each body's velocity row is the old one after the
  wall test on the old position, and its position row is the old one advanced by that
  velocity.
\<close>

lemma update_body_Inr:
  assumes "index < length velocities"
  shows "update_body wall dt index (positions, velocities) =
     Inr (positions[index := vec_add (positions ! index)
            (vec_scale ((if wall \<le> x_of (positions ! index)
                          then velocities[index := negate_x (velocities ! index)]
                          else velocities) ! index) dt)],
          if wall \<le> x_of (positions ! index)
          then velocities[index := negate_x (velocities ! index)] else velocities)"
  using assms by (simp add: update_body_def Let_def)

lemma update_body_Inl:
  "length velocities \<le> index \<Longrightarrow>
   update_body wall dt index (positions, velocities) = Inl IndexError"
  by (simp add: update_body_def)

lemma update_body_cases:
  obtains (raised) "length vs \<le> index" "update_body wall dt index (ps, vs) = Inl IndexError"
  | (updated) ps' vs' where "index < length vs" "update_body wall dt index (ps, vs) = Inr (ps', vs')"
      "length ps' = length ps" "length vs' = length vs"
      "\<forall>j. j \<noteq> index \<longrightarrow> ps' ! j = ps ! j \<and> vs' ! j = vs ! j"
      "index < length ps \<longrightarrow>
         vs' ! index = (if wall \<le> x_of (ps ! index) then negate_x (vs ! index) else vs ! index) \<and>
         ps' ! index = vec_add (ps ! index) (vec_scale (vs' ! index) dt)"
proof (cases "index < length vs")
  case False
  then show ?thesis using raised by (simp add: update_body_Inl)
next
  case True
  show ?thesis
    by (rule updated [OF True update_body_Inr [OF True]]) (use True in auto)
qed

lemma for_each_body_Inr:
  assumes "distinct indices" and "\<forall>i\<in>set indices. i < length ps \<and> i < length vs"
  shows "\<exists>ps' vs'. for_each_body wall dt indices (ps, vs) = Inr (ps', vs') \<and>
           length ps' = length ps \<and> length vs' = length vs \<and>
           (\<forall>j. j \<notin> set indices \<longrightarrow> ps' ! j = ps ! j \<and> vs' ! j = vs ! j) \<and>
           (\<forall>j\<in>set indices.
              vs' ! j = (if wall \<le> x_of (ps ! j) then negate_x (vs ! j) else vs ! j) \<and>
              ps' ! j = vec_add (ps ! j) (vec_scale (vs' ! j) dt))"
  using assms
proof (induction indices arbitrary: ps vs)
  case Nil
  show ?case by simp
next
  case (Cons i rest)
  from Cons.prems have i: "i < length ps" "i < length vs" and notin: "i \<notin> set rest"
    and dist: "distinct rest" by simp_all
  show ?case
  proof (cases rule: update_body_cases [of vs i wall dt ps])
    case raised
    with i show ?thesis by simp
  next
    case (updated ps1 vs1)
    have "\<forall>j\<in>set rest. j < length ps1 \<and> j < length vs1"
      using Cons.prems(2) updated(3,4) by simp
    from Cons.IH [OF dist this] obtain ps' vs' where
      run: "for_each_body wall dt rest (ps1, vs1) = Inr (ps', vs')"
      and len: "length ps' = length ps1" "length vs' = length vs1"
      and other: "\<forall>j. j \<notin> set rest \<longrightarrow> ps' ! j = ps1 ! j \<and> vs' ! j = vs1 ! j"
      and these: "\<forall>j\<in>set rest.
              vs' ! j = (if wall \<le> x_of (ps1 ! j) then negate_x (vs1 ! j) else vs1 ! j) \<and>
              ps' ! j = vec_add (ps1 ! j) (vec_scale (vs' ! j) dt)"
      by blast
    have same: "ps1 ! j = ps ! j \<and> vs1 ! j = vs ! j" if "j \<in> set rest" for j
      using that notin updated(5) by auto
    have "for_each_body wall dt (i # rest) (ps, vs) = Inr (ps', vs')"
      by (simp add: updated(2) run)
    moreover have "length ps' = length ps" "length vs' = length vs"
      using len updated(3,4) by simp_all
    moreover have "\<forall>j. j \<notin> set (i # rest) \<longrightarrow> ps' ! j = ps ! j \<and> vs' ! j = vs ! j"
      using other updated(5) by simp
    moreover have "\<forall>j\<in>set (i # rest).
              vs' ! j = (if wall \<le> x_of (ps ! j) then negate_x (vs ! j) else vs ! j) \<and>
              ps' ! j = vec_add (ps ! j) (vec_scale (vs' ! j) dt)"
    proof
      fix j assume "j \<in> set (i # rest)"
      then consider "j = i" | "j \<in> set rest" by auto
      then show "vs' ! j = (if wall \<le> x_of (ps ! j) then negate_x (vs ! j) else vs ! j) \<and>
              ps' ! j = vec_add (ps ! j) (vec_scale (vs' ! j) dt)"
      proof cases
        case 1
        with other notin have "ps' ! j = ps1 ! j" "vs' ! j = vs1 ! j" by simp_all
        with updated(6) i(1) 1 show ?thesis by simp
      next
        case 2
        with these same [OF 2] show ?thesis by simp
      qed
    qed
    ultimately show ?thesis by blast
  qed
qed


lemma advance_bodies_Inr:
  assumes "length ps \<le> length vs"
  shows "\<exists>ps' vs'. advance_bodies wall dt (ps, vs) = Inr (ps', vs') \<and>
           length ps' = length ps \<and> length vs' = length vs \<and>
           (\<forall>j<length ps.
              vs' ! j = (if wall \<le> x_of (ps ! j) then negate_x (vs ! j) else vs ! j) \<and>
              ps' ! j = vec_add (ps ! j) (vec_scale (vs' ! j) dt))"
proof -
  have "\<forall>i\<in>set [0..<length ps]. i < length ps \<and> i < length vs"
    using assms by simp
  from for_each_body_Inr [OF distinct_upt this, of wall dt]
  show ?thesis unfolding advance_bodies_def fst_conv by auto
qed




text \<open>The execution relation and the partial function describe the same loop.\<close>

lemma motion_exec_loop:
  assumes "motion_exec wall dt stop frames pv t r"
  shows "motion_loop wall dt stop frames pv t = Some r"
  using assms
proof induction
  case (finished t frames pv)
  then show ?case by (subst motion_loop.simps) simp
next
  case (raised t pv e frames)
  then show ?case by (subst motion_loop.simps) simp
next
  case (iterate t pv pv' frames r)
  then show ?case by (subst motion_loop.simps) simp
qed

lemma motion_loop_exec:
  assumes "motion_loop wall dt stop frames pv t = Some r"
  shows "motion_exec wall dt stop frames pv t r"
  using assms
proof (induction rule: motion_loop.raw_induct [rotated 1, consumes 1])
  case (1 loop wall dt stop frames pv t r)
  show ?case
  proof (cases "t \<le> stop")
    case False
    with 1(2) show ?thesis by (auto intro: motion_exec.finished)
  next
    case True
    show ?thesis
    proof (cases "advance_bodies wall dt pv")
      case (Inl e)
      with True 1(2) show ?thesis by (auto intro: motion_exec.raised)
    next
      case (Inr pv')
      with True 1(2) have "loop wall dt stop (frames @ [fst pv]) pv' (t + dt) = Some r"
        by simp
      then have "motion_exec wall dt stop (frames @ [fst pv]) pv' (t + dt) r"
        by (rule 1(1))
      with True Inr show ?thesis by (rule motion_exec.iterate)
    qed
  qed
qed

lemma motion_loop_iff_exec:
  "motion_loop wall dt stop frames pv t = Some r \<longleftrightarrow> motion_exec wall dt stop frames pv t r"
  by (blast intro: motion_loop_exec motion_exec_loop)

text \<open>With a positive step the loop returns.\<close>

lemma motion_loop_returns_aux:
  assumes "0 < dt"
  shows "stop - t < real n * dt \<Longrightarrow> \<exists>r. motion_loop wall dt stop frames pv t = Some r"
proof (induction n arbitrary: t frames pv)
  case 0
  then have "\<not> t \<le> stop" by simp
  then show ?case by (subst motion_loop.simps) simp
next
  case (Suc n)
  show ?case
  proof (cases "t \<le> stop")
    case False
    then show ?thesis by (subst motion_loop.simps) simp
  next
    case True
    show ?thesis
    proof (cases "advance_bodies wall dt pv")
      case (Inl e)
      with True show ?thesis by (subst motion_loop.simps) simp
    next
      case (Inr pv')
      from Suc.prems have "stop - (t + dt) < real n * dt"
        by (simp add: algebra_simps)
      from Suc.IH [OF this, of "frames @ [fst pv]" pv'] True Inr
      show ?thesis by (subst motion_loop.simps) simp
    qed
  qed
qed

lemma simulate_motion_returns:
  assumes "0 < time_step"
  shows "\<exists>r. simulate_motion initial_positions initial_velocities wall_x_position time_step stop_time = Some r"
proof -
  from assms obtain n where "stop_time - 0 < real n * time_step"
    using ex_less_of_nat_mult [of time_step "stop_time - 0"] by blast
  from motion_loop_returns_aux [OF assms this] show ?thesis
    unfolding simulate_motion_def .
qed

text \<open>
  With a step that is not positive, a stop time that is not negative and a velocity row
  for every body, the loop never leaves: no result, and no error either.
\<close>

lemma motion_loop_diverges:
  assumes "motion_loop wall dt stop frames pv t = Some r"
  shows "\<not> (dt \<le> 0 \<and> t \<le> stop \<and> length (fst pv) \<le> length (snd pv))"
  using assms
proof (induction rule: motion_loop.raw_induct [rotated 1, consumes 1])
  case (1 loop wall dt stop frames pv t r)
  show ?case
  proof
    assume inv: "dt \<le> 0 \<and> t \<le> stop \<and> length (fst pv) \<le> length (snd pv)"
    obtain ps vs where pv: "pv = (ps, vs)" by (cases pv)
    from inv pv have "length ps \<le> length vs" by simp
    from advance_bodies_Inr [OF this, of wall dt] obtain ps' vs' where
      adv: "advance_bodies wall dt pv = Inr (ps', vs')"
      and len: "length ps' = length ps" "length vs' = length vs"
      unfolding pv by blast
    from 1(2) inv adv have "loop wall dt stop (frames @ [fst pv]) (ps', vs') (t + dt) = Some r"
      by simp
    from 1(1) [OF this] inv len pv show False by simp
  qed
qed

lemma simulate_motion_diverges:
  assumes "time_step \<le> 0" and "0 \<le> stop_time"
    and "length initial_positions \<le> length initial_velocities"
  shows "simulate_motion initial_positions initial_velocities wall_x_position time_step stop_time = None"
proof (rule ccontr)
  assume "simulate_motion initial_positions initial_velocities wall_x_position time_step stop_time \<noteq> None"
  then obtain r where "motion_loop wall_x_position time_step stop_time []
      (initial_positions, initial_velocities) 0 = Some r"
    unfolding simulate_motion_def by blast
  from motion_loop_diverges [OF this] assms show False by simp
qed
















section \<open>The order of advance and boundary test\<close>




section \<open>A time step that is not positive\<close>

text \<open>
  Claim C3, as the code has it. No call is rejected for its \<open>time_step\<close>. \<open>simulate\<close>
  returns a trajectory whatever its \<open>time_step\<close> is, so also for one that is not
  positive: the trajectory holds the initial state and, when \<open>max_steps\<close> is positive, at
  least one step. With a \<open>time_step\<close> that is not positive, \<open>simulate_motion\<close> never
  returns when \<open>stop_time\<close> is not negative and every body has a velocity row, and
  returns the empty list when \<open>stop_time\<close> is negative.
\<close>

theorem nonpositive_time_step_accepted:
  assumes "time_step \<le> 0"
  shows "(\<exists>tr. simulate A angular_speed inner_radius release_height (vx, vy) (Some dt) max_steps
                  = Inr tr \<and>
               0 < length (time tr) \<and> (0 < max_steps \<longrightarrow> 1 < length (time tr))) \<and>
         (0 \<le> stop_time \<and> length initial_positions \<le> length initial_velocities \<longrightarrow>
            simulate_motion initial_positions initial_velocities wall_x_position time_step stop_time
              = None) \<and>
         (stop_time < 0 \<longrightarrow>
            simulate_motion initial_positions initial_velocities wall_x_position time_step stop_time
              = Some (Inr []))"
proof (intro conjI impI)
  have dt: "resolve_time_step A angular_speed (Some dt) = Inr dt"
    by (simp add: resolve_time_step_def)
  obtain tr where tr: "simulate A angular_speed inner_radius release_height (vx, vy) (Some dt) max_steps
                         = Inr tr"
    by (simp add: simulate_unfold [OF dt])
  from dt tr have "0 < length (time tr) \<and> (0 < max_steps \<longrightarrow> 1 < length (time tr))"
    by (cases rule: simulate_cases) (simp_all add: free_run_initial_length clamped_run_initial_length)
  with tr show "\<exists>tr. simulate A angular_speed inner_radius release_height (vx, vy) (Some dt) max_steps
                  = Inr tr \<and>
               0 < length (time tr) \<and> (0 < max_steps \<longrightarrow> 1 < length (time tr))"
    by blast
next
  assume "0 \<le> stop_time \<and> length initial_positions \<le> length initial_velocities"
  with assms
  show "simulate_motion initial_positions initial_velocities wall_x_position time_step stop_time = None"
    by (intro simulate_motion_diverges) simp_all
next
  assume "stop_time < 0"
  then show "simulate_motion initial_positions initial_velocities wall_x_position time_step stop_time
               = Some (Inr [])"
    unfolding simulate_motion_def by (subst motion_loop.simps) simp
qed

theorem nonpositive_time_step_accepted_witness:
  "(\<exists>tr. simulate binary64 (Finite 1) (Finite 10) (Finite 2) (Finite 0, Finite 0) (Some (Finite 0)) 2
            = Inr tr \<and> 1 < length (time tr)) \<and>
   simulate_motion [(0, 0, 0)] [(1, 0, 0)] 0 0 1 = None \<and>
   simulate_motion [(0, 0, 0)] [(1, 0, 0)] 0 0 (- 1) = Some (Inr [])"
  using nonpositive_time_step_accepted
          [of 0 binary64 "Finite 1" "Finite 10" "Finite 2" "Finite 0" "Finite 0" "Finite 0" 2 1
              "[(0, 0, 0)]" "[(1, 0, 0)]" 0]
    nonpositive_time_step_accepted
          [of 0 binary64 "Finite 1" "Finite 10" "Finite 2" "Finite 0" "Finite 0" "Finite 0" 2 "- 1"
              "[(0, 0, 0)]" "[(1, 0, 0)]" 0]
  by auto

text \<open>
  With \<open>time_step = 0\<close> and two steps allowed, \<open>simulate\<close> raises nothing: it runs both
  steps and returns three entries.
\<close>

theorem nonpositive_time_step_counterexample:
  "simulate binary64 (Finite 1) (Finite 10) (Finite 2) (Finite 0, Finite 0) (Some (Finite 0)) 2 =
     Inr \<lparr>time = [Finite 0, Finite 0, Finite 0], x_inertial = [Finite 0, Finite 0, Finite 0],
          y_inertial = [Finite (- 8), Finite (- 8), Finite (- 8)]\<rparr>"
  by (simp add: simulate_eval eval_nat_numeral)


section \<open>What simulate\_motion does to the store\<close>

lemma preserves_nth: "preserves s s' \<Longrightarrow> a < length s \<Longrightarrow> s' ! a = s ! a"
  unfolding preserves_def by (metis nth_take)

lemma preserves_alloc: "preserves s0 s \<Longrightarrow> preserves s0 (snd (alloc a s))"
  by (simp add: preserves_def alloc_def)

lemma preserves_update:
  "preserves s0 s \<Longrightarrow> length s0 \<le> p \<Longrightarrow> preserves s0 (s[p := a])"
  by (simp add: preserves_def take_update_cancel)

lemma alloc_simps:
  "fst (alloc a s) = length s" "snd (alloc a s) = s @ [a]" "length (snd (alloc a s)) = Suc (length s)"
  by (simp_all add: alloc_def)

lemma update_body_stored_frame:
  assumes "preserves s0 s" and "length s0 \<le> p" and "length s0 \<le> v"
  shows "case update_body_stored wall dt p v index s of
           Inl (e, s') \<Rightarrow> preserves s0 s' \<and> length s' = length s
         | Inr s' \<Rightarrow> preserves s0 s' \<and> length s' = length s"
  using assms by (simp add: update_body_stored_def Let_def preserves_update)

lemma for_each_body_stored_frame:
  assumes "preserves s0 s" and "length s0 \<le> p" and "length s0 \<le> v"
  shows "case for_each_body_stored wall dt p v indices s of
           Inl (e, s') \<Rightarrow> preserves s0 s' \<and> length s' = length s
         | Inr s' \<Rightarrow> preserves s0 s' \<and> length s' = length s"
  using assms(1)
proof (induction indices arbitrary: s)
  case Nil
  then show ?case by simp
next
  case (Cons index rest)
  from update_body_stored_frame [OF Cons.prems assms(2,3), of wall dt index]
  show ?case
  proof (cases "update_body_stored wall dt p v index s")
    case (Inl es)
    with update_body_stored_frame [OF Cons.prems assms(2,3), of wall dt index]
    show ?thesis by (simp split: prod.splits)
  next
    case (Inr s1)
    with update_body_stored_frame [OF Cons.prems assms(2,3), of wall dt index]
    have s1: "preserves s0 s1" "length s1 = length s" by simp_all
    from Cons.IH [OF s1(1)] s1(2) show ?thesis
      by (simp add: Inr split: sum.splits prod.splits)
  qed
qed

lemma fresh_frames_Nil: "fresh_frames s0 s []"
  by (simp add: fresh_frames_def)

lemma fresh_frames_snoc:
  assumes "fresh_frames s0 s frames" and "length s0 \<le> length s" and "length s < length s'"
  shows "fresh_frames s0 s' (frames @ [length s])"
  using assms by (auto simp: fresh_frames_def list_all_iff)

lemma fresh_frames_notin:
  "fresh_frames s0 s' frames \<Longrightarrow> a < length s0 \<Longrightarrow> a \<notin> set frames"
  by (auto simp: fresh_frames_def list_all_iff)

lemma motion_loop_stored_frame:
  assumes "motion_loop_stored wall dt stop p v frames t s = Some y"
  shows "preserves s0 s \<and> length s0 \<le> p \<and> length s0 \<le> v \<and> fresh_frames s0 s frames \<longrightarrow>
         preserves s0 (snd y) \<and> (\<forall>fs. fst y = Inr fs \<longrightarrow> fresh_frames s0 (snd y) fs)"
  using assms
proof (induction rule: motion_loop_stored.raw_induct [rotated 1, consumes 1])
  case (1 loop wall dt stop p v frames t s y)
  show ?case
  proof (intro impI)
    assume inv: "preserves s0 s \<and> length s0 \<le> p \<and> length s0 \<le> v \<and> fresh_frames s0 s frames"
    show "preserves s0 (snd y) \<and> (\<forall>fs. fst y = Inr fs \<longrightarrow> fresh_frames s0 (snd y) fs)"
    proof (cases "t \<le> stop")
      case False
      with 1(2) inv show ?thesis by auto
    next
      case True
      let ?s1 = "s @ [s ! p]"
      have s1: "preserves s0 ?s1"
        using inv preserves_alloc [of s0 s "s ! p"] by (simp add: alloc_simps)
      note body = for_each_body_stored_frame [OF s1, of p v wall dt "[0..<length (?s1 ! p)]"]
      show ?thesis
      proof (cases "for_each_body_stored wall dt p v [0..<length (?s1 ! p)] ?s1")
        case (Inl es)
        obtain e s2 where es: "es = (e, s2)" by (cases es)
        from 1(2) True Inl have "y = (Inl e, s2)"
          by (simp add: array_copy_def alloc_def es)
        with body inv Inl es show ?thesis by simp
      next
        case (Inr s2)
        from body inv Inr have s2: "preserves s0 s2" "length s2 = Suc (length s)" by simp_all
        from 1(2) True Inr have "loop wall dt stop p v (frames @ [length s]) (t + dt) s2 = Some y"
          by (simp add: array_copy_def alloc_def)
        from 1(1) [OF this] have "preserves s0 s2 \<and> length s0 \<le> p \<and> length s0 \<le> v \<and>
            fresh_frames s0 s2 (frames @ [length s]) \<longrightarrow>
          preserves s0 (snd y) \<and> (\<forall>fs. fst y = Inr fs \<longrightarrow> fresh_frames s0 (snd y) fs)" .
        moreover have "fresh_frames s0 s2 (frames @ [length s])"
          using inv s2(2) by (intro fresh_frames_snoc) (simp_all add: preserves_def)
        ultimately show ?thesis using s2(1) inv by simp
      qed
    qed
  qed
qed

lemma simulate_motion_stored_frame:
  assumes "simulate_motion_stored ip iv wall dt stop s = Some (res, s')"
  shows "preserves s s'" and "res = Inr frames \<Longrightarrow> fresh_frames s s' frames"
proof -
  let ?s1 = "s @ [s ! ip]"
  let ?s2 = "?s1 @ [?s1 ! iv]"
  from assms have run: "motion_loop_stored wall dt stop (length s) (Suc (length s)) [] 0 ?s2 = Some (res, s')"
    by (simp add: simulate_motion_stored_def array_copy_def alloc_def)
  have "preserves s ?s2"
    by (simp add: preserves_def)
  with motion_loop_stored_frame [OF run, of s]
  have "preserves s s' \<and> (\<forall>fs. res = Inr fs \<longrightarrow> fresh_frames s s' fs)"
    by (simp add: fresh_frames_Nil)
  then show "preserves s s'" and "res = Inr frames \<Longrightarrow> fresh_frames s s' frames"
    by simp_all
qed

lemma nth_append_second: "(s @ [a, b]) ! Suc (length s) = b"
  by (simp add: nth_append)

lemma cross_loop_stored_frame:
  assumes "cross_loop_stored dt stop p v frames t s = Some y"
  shows "preserves s0 s \<and> fresh_frames s0 s frames \<longrightarrow>
         preserves s0 (snd y) \<and> (\<forall>fs. fst y = Inr fs \<longrightarrow> fresh_frames s0 (snd y) fs)"
  using assms
proof (induction rule: cross_loop_stored.raw_induct [rotated 1, consumes 1])
  case (1 loop dt stop p v frames t s y)
  show ?case
  proof (intro impI)
    assume inv: "preserves s0 s \<and> fresh_frames s0 s frames"
    show "preserves s0 (snd y) \<and> (\<forall>fs. fst y = Inr fs \<longrightarrow> fresh_frames s0 (snd y) fs)"
    proof (cases "t \<le> stop")
      case False
      with 1(2) inv show ?thesis by auto
    next
      case True
      let ?s1 = "s @ [s ! p]"
      let ?scaled = "array_scale (?s1 ! v) dt"
      let ?s2 = "?s1 @ [?scaled]"
      have s2: "preserves s0 ?s2"
        using inv by (simp add: preserves_def)
      have unfold: "(case array_add (?s2 ! p) ?scaled of
                       Inl e \<Rightarrow> Some (Inl e, ?s2)
                     | Inr moved \<Rightarrow>
                         loop dt stop (Suc (Suc (length s))) v (frames @ [length s]) (t + dt)
                           (?s2 @ [moved])) = Some y"
        using 1(2) True
        by (simp add: array_copy_def alloc_def nth_append_second split: sum.splits)
      show ?thesis
      proof (cases "array_add (?s2 ! p) ?scaled")
        case (Inl e)
        with unfold have "y = (Inl e, ?s2)" by simp
        with s2 show ?thesis by simp
      next
        case (Inr moved)
        let ?s3 = "?s2 @ [moved]"
        from unfold Inr
        have "loop dt stop (Suc (Suc (length s))) v (frames @ [length s]) (t + dt) ?s3 = Some y"
          by simp
        from 1(1) [OF this] have "preserves s0 ?s3 \<and> fresh_frames s0 ?s3 (frames @ [length s]) \<longrightarrow>
          preserves s0 (snd y) \<and> (\<forall>fs. fst y = Inr fs \<longrightarrow> fresh_frames s0 (snd y) fs)" .
        moreover have "preserves s0 ?s3"
          using inv by (simp add: preserves_def)
        moreover have "fresh_frames s0 ?s3 (frames @ [length s])"
          using inv by (intro fresh_frames_snoc) (simp_all add: preserves_def)
        ultimately show ?thesis by simp
      qed
    qed
  qed
qed

lemma simulate_motion_cross_stored_frame:
  assumes "simulate_motion_cross_stored ip iv dt stop s = Some (res, s')"
  shows "preserves s s'" and "res = Inr frames \<Longrightarrow> fresh_frames s s' frames"
proof -
  let ?s1 = "s @ [s ! ip]"
  let ?s2 = "?s1 @ [?s1 ! iv]"
  from assms have run: "cross_loop_stored dt stop (length s) (Suc (length s)) [] 0 ?s2 = Some (res, s')"
    by (simp add: simulate_motion_cross_stored_def array_copy_def alloc_def)
  have "preserves s ?s2"
    by (simp add: preserves_def)
  with cross_loop_stored_frame [OF run, of s]
  have "preserves s s' \<and> (\<forall>fs. res = Inr fs \<longrightarrow> fresh_frames s s' fs)"
    by (simp add: fresh_frames_Nil)
  then show "preserves s s'" and "res = Inr frames \<Longrightarrow> fresh_frames s s' frames"
    by simp_all
qed


text \<open>
  Claim C9. A call of \<open>simulate_motion\<close>, of the bouncing script or of the crossing
  script, leaves the caller's two arrays as they were (and every other array that
  existed before the call), and the arrays it returns are distinct cells allocated
  during the call: none of them is the cell of \<open>initial_positions\<close> or of
  \<open>initial_velocities\<close>.
\<close>

theorem simulate_motion_leaves_inputs:
  assumes "initial_positions < length s" and "initial_velocities < length s"
    and "simulate_motion_stored initial_positions initial_velocities wall_x_position time_step
           stop_time s = Some (result, s')"
    and "simulate_motion_cross_stored initial_positions initial_velocities cross_time_step
           cross_stop_time s = Some (cross_result, cross_s')"
  shows "(s' ! initial_positions = s ! initial_positions \<and>
          s' ! initial_velocities = s ! initial_velocities \<and>
          preserves s s' \<and>
          (\<forall>frames. result = Inr frames \<longrightarrow>
             fresh_frames s s' frames \<and>
             initial_positions \<notin> set frames \<and> initial_velocities \<notin> set frames)) \<and>
         (cross_s' ! initial_positions = s ! initial_positions \<and>
          cross_s' ! initial_velocities = s ! initial_velocities \<and>
          preserves s cross_s' \<and>
          (\<forall>frames. cross_result = Inr frames \<longrightarrow>
             fresh_frames s cross_s' frames \<and>
             initial_positions \<notin> set frames \<and> initial_velocities \<notin> set frames))"
proof (intro conjI allI impI)
  show p: "preserves s s'"
    by (rule simulate_motion_stored_frame(1) [OF assms(3)])
  show "s' ! initial_positions = s ! initial_positions"
    by (rule preserves_nth [OF p assms(1)])
  show "s' ! initial_velocities = s ! initial_velocities"
    by (rule preserves_nth [OF p assms(2)])
  show c: "preserves s cross_s'"
    by (rule simulate_motion_cross_stored_frame(1) [OF assms(4)])
  show "cross_s' ! initial_positions = s ! initial_positions"
    by (rule preserves_nth [OF c assms(1)])
  show "cross_s' ! initial_velocities = s ! initial_velocities"
    by (rule preserves_nth [OF c assms(2)])
next
  fix frames assume "result = Inr frames"
  then show f: "fresh_frames s s' frames"
    by (rule simulate_motion_stored_frame(2) [OF assms(3)])
  show "initial_positions \<notin> set frames"
    by (rule fresh_frames_notin [OF f assms(1)])
  show "initial_velocities \<notin> set frames"
    by (rule fresh_frames_notin [OF f assms(2)])
next
  fix frames assume "cross_result = Inr frames"
  then show f: "fresh_frames s cross_s' frames"
    by (rule simulate_motion_cross_stored_frame(2) [OF assms(4)])
  show "initial_positions \<notin> set frames"
    by (rule fresh_frames_notin [OF f assms(1)])
  show "initial_velocities \<notin> set frames"
    by (rule fresh_frames_notin [OF f assms(2)])
qed

lemma simulate_motion_stored_run:
  "simulate_motion_stored 0 1 0 1 1 [[(- 1, 0, 0)], [(2, 0, 0)]] =
     Some (Inr [4, 5],
           [[(- 1, 0, 0)], [(2, 0, 0)], [(- 1, 0, 0)], [(- 2, 0, 0)], [(- 1, 0, 0)], [(1, 0, 0)]])"
  unfolding simulate_motion_stored_def
  apply (simp add: array_copy_def alloc_def)
  apply (subst motion_loop_stored.simps)
  apply (simp add: array_copy_def alloc_def update_body_stored_def Let_def)
  apply (subst motion_loop_stored.simps)
  apply (simp add: array_copy_def alloc_def update_body_stored_def Let_def)
  apply (subst motion_loop_stored.simps)
  apply simp
  done

lemma simulate_motion_cross_stored_run:
  "simulate_motion_cross_stored 0 1 1 1 [[(- 1, 0, 0)], [(2, 0, 0)]] =
     Some (Inr [4, 7],
           [[(- 1, 0, 0)], [(2, 0, 0)], [(- 1, 0, 0)], [(2, 0, 0)], [(- 1, 0, 0)], [(2, 0, 0)],
            [(1, 0, 0)], [(1, 0, 0)], [(2, 0, 0)], [(3, 0, 0)]])"
  unfolding simulate_motion_cross_stored_def
  apply (simp add: array_copy_def alloc_def)
  apply (subst cross_loop_stored.simps)
  apply (simp add: array_copy_def alloc_def array_scale_def array_add_def)
  apply (subst cross_loop_stored.simps)
  apply (simp add: array_copy_def alloc_def array_scale_def array_add_def)
  apply (subst cross_loop_stored.simps)
  apply simp
  done

theorem simulate_motion_leaves_inputs_witness:
  "preserves [[(- 1, 0, 0)], [(2, 0, 0)]]
     [[(- 1, 0, 0)], [(2, 0, 0)], [(- 1, 0, 0)], [(- 2, 0, 0)], [(- 1, 0, 0)], [(1, 0, 0)]] \<and>
   fresh_frames [[(- 1, 0, 0)], [(2, 0, 0)]]
     [[(- 1, 0, 0)], [(2, 0, 0)], [(- 1, 0, 0)], [(- 2, 0, 0)], [(- 1, 0, 0)], [(1, 0, 0)]] [4, 5] \<and>
   preserves [[(- 1, 0, 0)], [(2, 0, 0)]]
     [[(- 1, 0, 0)], [(2, 0, 0)], [(- 1, 0, 0)], [(2, 0, 0)], [(- 1, 0, 0)], [(2, 0, 0)],
      [(1, 0, 0)], [(1, 0, 0)], [(2, 0, 0)], [(3, 0, 0)]] \<and>
   fresh_frames [[(- 1, 0, 0)], [(2, 0, 0)]]
     [[(- 1, 0, 0)], [(2, 0, 0)], [(- 1, 0, 0)], [(2, 0, 0)], [(- 1, 0, 0)], [(2, 0, 0)],
      [(1, 0, 0)], [(1, 0, 0)], [(2, 0, 0)], [(3, 0, 0)]] [4, 7]"
proof -
  have a: "(0::nat) < length [[(- 1 :: real, 0 :: real, 0 :: real)], [(2, 0, 0)]]"
    and b: "(1::nat) < length [[(- 1 :: real, 0 :: real, 0 :: real)], [(2, 0, 0)]]"
    by simp_all
  from simulate_motion_leaves_inputs
         [OF a b simulate_motion_stored_run simulate_motion_cross_stored_run]
  show ?thesis by blast
qed


text \<open>
  The store model and the value model of the bouncing script agree: on a store where
  the two working arrays are different cells, one round of the loop body changes those
  two cells as the value model says and no other cell.
\<close>

lemma update_body_stored_values:
  assumes "p \<noteq> v" and "p < length s" and "v < length s"
  shows "case update_body_stored wall dt p v index s of
           Inl (e, s') \<Rightarrow> update_body wall dt index (s ! p, s ! v) = Inl e
         | Inr s' \<Rightarrow> update_body wall dt index (s ! p, s ! v) = Inr (s' ! p, s' ! v) \<and>
                      length s' = length s \<and> (\<forall>a. a \<noteq> p \<and> a \<noteq> v \<longrightarrow> s' ! a = s ! a)"
  using assms by (simp add: update_body_stored_def update_body_def Let_def)

lemma for_each_body_stored_values:
  assumes "p \<noteq> v" and "p < length s" and "v < length s"
  shows "case for_each_body_stored wall dt p v indices s of
           Inl (e, s') \<Rightarrow> for_each_body wall dt indices (s ! p, s ! v) = Inl e
         | Inr s' \<Rightarrow> for_each_body wall dt indices (s ! p, s ! v) = Inr (s' ! p, s' ! v) \<and>
                      length s' = length s \<and> (\<forall>a. a \<noteq> p \<and> a \<noteq> v \<longrightarrow> s' ! a = s ! a)"
  using assms(2,3)
proof (induction indices arbitrary: s)
  case Nil
  show ?case by simp
next
  case (Cons index rest)
  note step = update_body_stored_values [OF assms(1) Cons.prems, of wall dt index]
  show ?case
  proof (cases "update_body_stored wall dt p v index s")
    case (Inl es)
    with step show ?thesis by (simp split: prod.splits)
  next
    case (Inr s1)
    with step have s1: "update_body wall dt index (s ! p, s ! v) = Inr (s1 ! p, s1 ! v)"
      "length s1 = length s" "\<forall>a. a \<noteq> p \<and> a \<noteq> v \<longrightarrow> s1 ! a = s ! a"
      by simp_all
    from Cons.prems s1(2) have "p < length s1" "v < length s1" by simp_all
    from Cons.IH [OF this] s1 show ?thesis
      by (simp add: Inr split: sum.splits prod.splits)
  qed
qed

lemma motion_loop_stored_values:
  assumes "motion_loop_stored wall dt stop p v frames t s = Some y"
  shows "p \<noteq> v \<and> p < length s \<and> v < length s \<and> (\<forall>c\<in>set frames. c < length s \<and> c \<noteq> p \<and> c \<noteq> v) \<longrightarrow>
         motion_loop wall dt stop (map ((!) s) frames) (s ! p, s ! v) t =
           Some (map_sum (\<lambda>e. e) (map ((!) (snd y))) (fst y))"
  using assms
proof (induction rule: motion_loop_stored.raw_induct [rotated 1, consumes 1])
  case (1 loop wall dt stop p v frames t s y)
  show ?case
  proof (intro impI)
    assume inv: "p \<noteq> v \<and> p < length s \<and> v < length s \<and>
                 (\<forall>c\<in>set frames. c < length s \<and> c \<noteq> p \<and> c \<noteq> v)"
    show "motion_loop wall dt stop (map ((!) s) frames) (s ! p, s ! v) t =
            Some (map_sum (\<lambda>e. e) (map ((!) (snd y))) (fst y))"
    proof (cases "t \<le> stop")
      case False
      with 1(2) show ?thesis by (subst motion_loop.simps) auto
    next
      case True
      let ?s1 = "s @ [s ! p]"
      have cells: "?s1 ! p = s ! p" "?s1 ! v = s ! v" "p < length ?s1" "v < length ?s1"
        using inv by (simp_all add: nth_append)
      note body = for_each_body_stored_values [OF _ cells(3,4), of wall dt "[0..<length (?s1 ! p)]"]
      have adv: "advance_bodies wall dt (s ! p, s ! v) =
                   for_each_body wall dt [0..<length (?s1 ! p)] (?s1 ! p, ?s1 ! v)"
        by (simp only: advance_bodies_def cells fst_conv)
      show ?thesis
      proof (cases "for_each_body_stored wall dt p v [0..<length (?s1 ! p)] ?s1")
        case (Inl es)
        obtain e s2 where es: "es = (e, s2)" by (cases es)
        from 1(2) True Inl have y: "y = (Inl e, s2)"
          by (simp add: array_copy_def alloc_def es)
        from body inv Inl es have "advance_bodies wall dt (s ! p, s ! v) = Inl e"
          by (simp add: adv)
        with True y show ?thesis by (subst motion_loop.simps) simp
      next
        case (Inr s2)
        from body inv Inr have s2:
          "advance_bodies wall dt (s ! p, s ! v) = Inr (s2 ! p, s2 ! v)"
          "length s2 = Suc (length s)" "\<forall>a. a \<noteq> p \<and> a \<noteq> v \<longrightarrow> s2 ! a = ?s1 ! a"
          by (simp_all add: adv)
        from 1(2) True Inr have "loop wall dt stop p v (frames @ [length s]) (t + dt) s2 = Some y"
          by (simp add: array_copy_def alloc_def)
        from 1(1) [OF this] inv s2(2)
        have next_round: "motion_loop wall dt stop (map ((!) s2) (frames @ [length s])) (s2 ! p, s2 ! v) (t + dt)
                = Some (map_sum (\<lambda>e. e) (map ((!) (snd y))) (fst y))"
          by auto
        have "s2 ! c = s ! c" if "c \<in> set frames" for c
          using that inv s2(3) by (auto simp: nth_append)
        then have old: "map ((!) s2) frames = map ((!) s) frames" by simp
        have new: "s2 ! length s = s ! p"
          using inv s2(3) by (auto simp: nth_append)
        have "map ((!) s2) (frames @ [length s]) = map ((!) s) frames @ [fst (s ! p, s ! v)]"
          by (simp add: old new)
        with next_round
        have "motion_loop wall dt stop (map ((!) s) frames @ [fst (s ! p, s ! v)]) (s2 ! p, s2 ! v) (t + dt)
                = Some (map_sum (\<lambda>e. e) (map ((!) (snd y))) (fst y))"
          by (simp only:)
        with True s2(1) show ?thesis
          by (subst motion_loop.simps) simp
      qed
    qed
  qed
qed

text \<open>
  The arrays a stored run returns hold the frames of the value model, and a stored run
  raises what the value model raises.
\<close>

lemma simulate_motion_stored_values:
  assumes "initial_positions < length s" and "initial_velocities < length s"
    and "simulate_motion_stored initial_positions initial_velocities wall dt stop s = Some (result, s')"
  shows "simulate_motion (s ! initial_positions) (s ! initial_velocities) wall dt stop =
           Some (map_sum (\<lambda>e. e) (map ((!) s')) result)"
proof -
  let ?s1 = "s @ [s ! initial_positions]"
  let ?s2 = "?s1 @ [?s1 ! initial_velocities]"
  from assms(3) have run:
    "motion_loop_stored wall dt stop (length s) (Suc (length s)) [] 0 ?s2 = Some (result, s')"
    by (simp add: simulate_motion_stored_def array_copy_def alloc_def)
  have "?s2 ! length s = s ! initial_positions" "?s2 ! Suc (length s) = s ! initial_velocities"
    using assms(1,2) by (simp_all add: nth_append)
  with motion_loop_stored_values [OF run] show ?thesis
    by (simp add: simulate_motion_def)
qed


lemma cross_loop_stored_values:
  assumes "cross_loop_stored dt stop p v frames t s = Some y"
  shows "p < length s \<and> v < length s \<and> (\<forall>c\<in>set frames. c < length s) \<longrightarrow>
         cross_loop dt stop (map ((!) s) frames) (s ! p) (s ! v) t =
           Some (map_sum (\<lambda>e. e) (map ((!) (snd y))) (fst y))"
  using assms
proof (induction rule: cross_loop_stored.raw_induct [rotated 1, consumes 1])
  case (1 loop dt stop p v frames t s y)
  show ?case
  proof (intro impI)
    assume inv: "p < length s \<and> v < length s \<and> (\<forall>c\<in>set frames. c < length s)"
    show "cross_loop dt stop (map ((!) s) frames) (s ! p) (s ! v) t =
            Some (map_sum (\<lambda>e. e) (map ((!) (snd y))) (fst y))"
    proof (cases "t \<le> stop")
      case False
      with 1(2) show ?thesis by (subst cross_loop.simps) auto
    next
      case True
      let ?s1 = "s @ [s ! p]"
      let ?scaled = "array_scale (?s1 ! v) dt"
      let ?s2 = "?s1 @ [?scaled]"
      have cells: "?s2 ! p = s ! p" "?s1 ! v = s ! v"
        using inv by (simp_all add: nth_append)
      have unfold: "(case array_add (s ! p) (array_scale (s ! v) dt) of
                       Inl e \<Rightarrow> Some (Inl e, ?s2)
                     | Inr moved \<Rightarrow>
                         loop dt stop (Suc (Suc (length s))) v (frames @ [length s]) (t + dt)
                           (?s2 @ [moved])) = Some y"
        using 1(2) True cells
        by (simp add: array_copy_def alloc_def nth_append_second split: sum.splits)
      show ?thesis
      proof (cases "array_add (s ! p) (array_scale (s ! v) dt)")
        case (Inl e)
        with unfold have "y = (Inl e, ?s2)" by simp
        with True Inl show ?thesis by (subst cross_loop.simps) simp
      next
        case (Inr moved)
        let ?s3 = "?s2 @ [moved]"
        from unfold Inr
        have "loop dt stop (Suc (Suc (length s))) v (frames @ [length s]) (t + dt) ?s3 = Some y"
          by simp
        from 1(1) [OF this] inv
        have next_round: "cross_loop dt stop (map ((!) ?s3) (frames @ [length s]))
                 (?s3 ! Suc (Suc (length s))) (?s3 ! v) (t + dt)
               = Some (map_sum (\<lambda>e. e) (map ((!) (snd y))) (fst y))"
          by auto
        have "?s3 ! c = s ! c" if "c \<in> set frames" for c
          using that inv by (simp add: nth_append)
        then have old: "map ((!) ?s3) frames = map ((!) s) frames" by simp
        have new: "?s3 ! length s = s ! p" "?s3 ! v = s ! v"
          using inv by (simp_all add: nth_append)
        have moved: "?s3 ! Suc (Suc (length s)) = moved"
          by (simp add: nth_append)
        have "map ((!) ?s3) (frames @ [length s]) = map ((!) s) frames @ [s ! p]"
          by (simp only: map_append old list.map new)
        with next_round
        have "cross_loop dt stop (map ((!) s) frames @ [s ! p]) moved (s ! v) (t + dt)
               = Some (map_sum (\<lambda>e. e) (map ((!) (snd y))) (fst y))"
          by (simp only: moved new)
        with True Inr show ?thesis
          by (subst cross_loop.simps) simp
      qed
    qed
  qed
qed

lemma simulate_motion_cross_stored_values:
  assumes "initial_positions < length s" and "initial_velocities < length s"
    and "simulate_motion_cross_stored initial_positions initial_velocities dt stop s = Some (result, s')"
  shows "simulate_motion_cross (s ! initial_positions) (s ! initial_velocities) dt stop =
           Some (map_sum (\<lambda>e. e) (map ((!) s')) result)"
proof -
  let ?s1 = "s @ [s ! initial_positions]"
  let ?s2 = "?s1 @ [?s1 ! initial_velocities]"
  from assms(3) have run:
    "cross_loop_stored dt stop (length s) (Suc (length s)) [] 0 ?s2 = Some (result, s')"
    by (simp add: simulate_motion_cross_stored_def array_copy_def alloc_def)
  have "?s2 ! length s = s ! initial_positions" "?s2 ! Suc (length s) = s ! initial_velocities"
    using assms(1,2) by (simp_all add: nth_append)
  with cross_loop_stored_values [OF run] show ?thesis
    by (simp add: simulate_motion_cross_def)
qed

end
